theory Spec2Isabelle
  imports Complex_Main
begin

section \<open>Order-flow conversion: data model\<close>

text \<open>
  The development embeds \<^verbatim>\<open>freqtrade/data/converter/orderflow.py\<close>.
  Prices, amounts and thresholds are float64 in the source; they are modelled as exact
  rationals, so binary rounding is not part of the model. The two non-finite values that
  the source relies on (the not-a-number of \<^verbatim>\<open>shift\<close> and of \<open>0/0\<close>, the
  infinity of \<open>x/0\<close>) are explicit: a cell that may hold \<^verbatim>\<open>np.nan\<close> is an
  \<open>option\<close> (\<open>None\<close> is NaN), and a quotient is an \<open>fval\<close>.
\<close>

record trade =
  date :: int
  price :: rat
  amount :: rat
  side :: string

text \<open>
  One row of the volume profile: the columns that survive
  \<^verbatim>\<open>sum(numeric_only=True)\<close>. \<open>bid\<close> and \<open>ask\<close> are the numbers of sell and
  of buy trades, \<open>bid_amount\<close> and \<open>ask_amount\<close> their amounts. The constant
  \<^verbatim>\<open>DEFAULT_ORDERFLOW_COLUMNS\<close> is declared outside the sources at hand; a column
  of it that no line assigns holds no number and does not survive the sum.
\<close>

record bin =
  bid_amount :: rat
  ask_amount :: rat
  bid :: int
  ask :: int
  delta :: rat
  total_volume :: rat
  total_trades :: int

record imbalance =
  bid_imbalance :: bool
  ask_imbalance :: bool

text \<open>A data frame indexed by price: the rows in index order, each with its index label.\<close>

type_synonym orderflow_rows = "(rat \<times> bin) list"
type_synonym imbalances_df = "(rat \<times> imbalance) list"

text \<open>
  The frame the profile builder returns. For no trades it returns early (lines 217 to
  220) a frame without rows that has the columns \<open>total\<close> and \<open>delta\<close> but neither
  \<open>total_volume\<close> nor \<open>total_trades\<close>; otherwise the rows grouped by price, with all
  the columns of \<open>bin\<close>.
\<close>

datatype orderflow_df = No_trades | Binned orderflow_rows

text \<open>\<^verbatim>\<open>orderflow.to_dict(orient="index")\<close>: a frame without rows gives the empty dictionary.\<close>

fun to_dict :: "orderflow_df \<Rightarrow> orderflow_rows" where
  "to_dict No_trades = []"
| "to_dict (Binned rows) = rows"

datatype fval = NaN | Fin rat | PInf | NInf

datatype exn = IndexError | ValueError | KeyError | AttributeError | ResolverError string

datatype error = DependencyException exn

section \<open>Series primitives\<close>

text \<open>\<^verbatim>\<open>Series.str.contains(pat)\<close> for a pattern without regex metacharacters.\<close>

fun str_contains :: "string \<Rightarrow> string \<Rightarrow> bool" where
  "str_contains [] pat = (pat = [])"
| "str_contains (c # cs) pat = (take (length pat) (c # cs) = pat \<or> str_contains cs pat)"

text \<open>\<^verbatim>\<open>np.round\<close>: round half to even.\<close>

definition np_round :: "rat \<Rightarrow> int" where
  "np_round q =
     (let f = \<lfloor>q\<rfloor>; d = q - of_int f
      in if d < 1 / 2 then f else if 1 / 2 < d then f + 1 else if even f then f else f + 1)"

text \<open>
  \<^verbatim>\<open>(price / scale).round() * scale\<close>. With \<open>scale = 0\<close> the quotient is
  infinite or NaN and the product is NaN in every case.
\<close>

definition bin_price :: "rat \<Rightarrow> rat \<Rightarrow> rat option" where
  "bin_price scale p = (if scale = 0 then None else Some (of_int (np_round (p / scale)) * scale))"

text \<open>\<^verbatim>\<open>Series.shift(-1)\<close> and \<^verbatim>\<open>Series.shift()\<close>: the vacated slot is NaN.\<close>

definition shift_neg1 :: "'a list \<Rightarrow> 'a option list" where
  "shift_neg1 xs = (if xs = [] then [] else map Some (tl xs) @ [None])"

definition shift1 :: "'a list \<Rightarrow> 'a option list" where
  "shift1 xs = (if xs = [] then [] else None # map Some (butlast xs))"

text \<open>
  Division of two integer-valued series cells, either of which may be NaN: float
  division, where \<open>x/0\<close> is an infinity of the sign of \<open>x\<close> and \<open>0/0\<close> is NaN.
\<close>

fun fdiv :: "int option \<Rightarrow> int option \<Rightarrow> fval" where
  "fdiv None _ = NaN"
| "fdiv _ None = NaN"
| "fdiv (Some a) (Some b) =
     (if b = 0 then (if a = 0 then NaN else if 0 < a then PInf else NInf)
      else Fin (of_int a / of_int b))"

text \<open>\<open>x > r\<close> for a finite threshold \<open>r\<close>: every comparison with NaN is false.\<close>

fun fgt :: "fval \<Rightarrow> rat \<Rightarrow> bool" where
  "fgt NaN r = False"
| "fgt (Fin q) r = (r < q)"
| "fgt PInf r = True"
| "fgt NInf r = False"

fun cumsum_from :: "'a::monoid_add \<Rightarrow> 'a list \<Rightarrow> 'a list" where
  "cumsum_from acc [] = []"
| "cumsum_from acc (x # xs) = (acc + x) # cumsum_from (acc + x) xs"

definition cumsum :: "'a::monoid_add list \<Rightarrow> 'a list" where
  "cumsum xs = cumsum_from 0 xs"

text \<open>
  \<^verbatim>\<open>s.groupby(keys).cumcount()\<close>: for each position, the number of earlier
  positions with the same key.
\<close>

definition cumcount :: "'a list \<Rightarrow> nat list" where
  "cumcount ks = map (\<lambda>i. length (filter (\<lambda>k. k = ks ! i) (take i ks))) [0..<length ks]"

section \<open>Volume profile\<close>

definition trade_row :: "rat \<Rightarrow> trade \<Rightarrow> rat option \<times> bin" where
  "trade_row scale t =
     (let ba = (if str_contains (side t) ''sell'' then amount t else 0);
          aa = (if str_contains (side t) ''buy'' then amount t else 0);
          b = (if str_contains (side t) ''sell'' then 1 else 0);
          a = (if str_contains (side t) ''buy'' then 1 else 0)
      in (bin_price scale (price t),
          \<lparr>bid_amount = ba, ask_amount = aa, bid = b, ask = a,
           delta = aa - ba, total_volume = aa + ba, total_trades = a + b\<rparr>))"

definition sum_bins :: "bin list \<Rightarrow> bin" where
  "sum_bins bs =
     \<lparr>bid_amount = sum_list (map bid_amount bs), ask_amount = sum_list (map ask_amount bs),
      bid = sum_list (map bid bs), ask = sum_list (map ask bs),
      delta = sum_list (map delta bs), total_volume = sum_list (map total_volume bs),
      total_trades = sum_list (map total_trades bs)\<rparr>"

text \<open>
  \<^verbatim>\<open>df.groupby("price").sum(numeric_only=True)\<close>: one row per distinct key, keys
  ascending, rows with a NaN key dropped.
\<close>

definition groupby_price_sum :: "(rat option \<times> bin) list \<Rightarrow> orderflow_rows" where
  "groupby_price_sum rows =
     map (\<lambda>k. (k, sum_bins (map snd (filter (\<lambda>r. fst r = Some k) rows))))
       (sort (remdups (List.map_filter fst rows)))"

definition trades_to_volumeprofile_with_total_delta_bid_ask ::
  "trade list \<Rightarrow> rat \<Rightarrow> orderflow_df" where
  "trades_to_volumeprofile_with_total_delta_bid_ask trades scale =
     (let df = map (trade_row scale) trades
      in if df = [] then No_trades else Binned (groupby_price_sum df))"

section \<open>Imbalances\<close>

text \<open>
  Lines 238 to 250 on a frame that has the columns they read: the two flags of every
  row, from the trade counts \<open>bid\<close> and \<open>ask\<close> and from \<open>total_volume\<close>.
\<close>

definition imbalance_flags :: "orderflow_rows \<Rightarrow> rat \<Rightarrow> rat \<Rightarrow> imbalances_df" where
  "imbalance_flags df imbalance_ratio imbalance_volume =
     (let bidc = map (\<lambda>r. Some (bid (snd r))) df;
          askc = shift_neg1 (map (\<lambda>r. ask (snd r)) df);
          bid_imb = map2 (\<lambda>b a. fgt (fdiv b a) imbalance_ratio) bidc askc;
          bid_imbalance_filtered =
            map2 (\<lambda>r x. if total_volume (snd r) < imbalance_volume then False else x) df bid_imb;
          ask_imb = map2 (\<lambda>a b. fgt (fdiv a b) imbalance_ratio) askc bidc;
          ask_imbalance_filtered =
            map2 (\<lambda>r x. if total_volume (snd r) < imbalance_volume then False else x) df ask_imb
      in map2 (\<lambda>r (b, a). (fst r, \<lparr>bid_imbalance = b, ask_imbalance = a\<rparr>)) df
           (zip bid_imbalance_filtered ask_imbalance_filtered))"

text \<open>
  On the frame returned for no trades, reading \<^verbatim>\<open>df.total_volume\<close> (line 243)
  raises: the frame has no such column.
\<close>

definition trades_orderflow_to_imbalances ::
  "orderflow_df \<Rightarrow> rat \<Rightarrow> rat \<Rightarrow> exn + imbalances_df" where
  "trades_orderflow_to_imbalances df imbalance_ratio imbalance_volume =
     (case df of
        No_trades \<Rightarrow> Inl AttributeError
      | Binned rows \<Rightarrow> Inr (imbalance_flags rows imbalance_ratio imbalance_volume))"

section \<open>Stacked imbalances\<close>

text \<open>
  \<^verbatim>\<open>(int_series != int_series.shift()).cumsum()\<close>: the key of the run a position
  belongs to. The first position differs from the NaN before it.
\<close>

definition run_keys :: "int list \<Rightarrow> int list" where
  "run_keys int_series =
     cumsum (map (\<lambda>c. if c then 1 else 0)
               (map2 (\<lambda>v p. Some v \<noteq> p) int_series (shift1 int_series)))"

text \<open>
  \<^verbatim>\<open>int_series * (int_series.groupby(keys).cumcount() + 1)\<close>, lines 263 to 266.
\<close>

definition stacked_series :: "bool list \<Rightarrow> int list" where
  "stacked_series imb =
     (let int_series = map (\<lambda>b. if b then 1 else 0) imb
      in map2 (\<lambda>v c. v * (int c + 1)) int_series (cumcount (run_keys int_series)))"

definition stacked_imbalance :: "(rat \<times> bool) list \<Rightarrow> int \<Rightarrow> bool \<Rightarrow> rat option" where
  "stacked_imbalance imb stacked_imbalance_range should_reverse =
     (let stacked = stacked_series (map snd imb);
          max_stacked_imbalance_idx =
            filter (\<lambda>i. stacked_imbalance_range \<le> stacked ! i) [0..<length stacked]
      in if max_stacked_imbalance_idx = [] then None
         else Some (fst (imb ! (if \<not> should_reverse then hd max_stacked_imbalance_idx
                                else hd (rev max_stacked_imbalance_idx)))))"

definition stacked_imbalance_ask :: "imbalances_df \<Rightarrow> int \<Rightarrow> rat option" where
  "stacked_imbalance_ask df stacked_imbalance_range =
     stacked_imbalance (map (\<lambda>r. (fst r, ask_imbalance (snd r))) df) stacked_imbalance_range True"

definition stacked_imbalance_bid :: "imbalances_df \<Rightarrow> int \<Rightarrow> rat option" where
  "stacked_imbalance_bid df stacked_imbalance_range =
     stacked_imbalance (map (\<lambda>r. (fst r, bid_imbalance (snd r))) df) stacked_imbalance_range False"

section \<open>Stacked imbalances, in the words of the specification\<close>

text \<open>
  The length of the run of consecutive true values ending at a position (a run breaks at
  any false), and the positions that qualify: those whose run length is at least the
  range.
\<close>

definition run_length_ending_at :: "bool list \<Rightarrow> nat \<Rightarrow> nat" where
  "run_length_ending_at bs i = length (takeWhile (\<lambda>b. b) (rev (take (Suc i) bs)))"

definition qualifies :: "bool list \<Rightarrow> int \<Rightarrow> nat \<Rightarrow> bool" where
  "qualifies bs rng i = (i < length bs \<and> rng \<le> int (run_length_ending_at bs i))"

section \<open>The orchestrator: state, configuration, collaborators\<close>

text \<open>
  Modelled from the spec: the enumeration \<^verbatim>\<open>RunMode\<close> lives in
  \<^verbatim>\<open>freqtrade.enums\<close>, outside the sources at hand. The spec speaks of a run-mode
  flag distinguishing live (\<open>LIVE\<close>) and simulated-live (\<open>DRY_RUN\<close>) from
  backtesting and other modes.
\<close>

datatype RunMode = LIVE | DRY_RUN | BACKTEST | OTHER

record config_orderflow =
  max_candles :: int
  scale :: rat
  imbalance_ratio :: rat
  imbalance_volume :: rat
  stacked_imbalance_range :: int
  cache_size :: int

record config =
  timeframe :: string
  orderflow :: config_orderflow
  runmode :: "RunMode option"

text \<open>
  One row of the interval table. The columns are named \<open>col_\<close> plus the source's
  column name, since several column names are also columns of the volume profile.
  \<open>col_ohlcv\<close> stands for the columns the function never writes by name.
  \<open>None\<close> is \<^verbatim>\<open>np.nan\<close>.
\<close>

record candle =
  col_date :: int
  col_ohlcv :: "rat list"
  col_trades :: "trade list option"
  col_orderflow :: "orderflow_rows option"
  col_imbalances :: "imbalances_df option"
  col_stacked_imbalances_bid :: "rat option"
  col_stacked_imbalances_ask :: "rat option"
  col_max_delta :: "rat option"
  col_min_delta :: "rat option"
  col_bid :: "rat option"
  col_ask :: "rat option"
  col_delta :: "rat option"
  col_total_trades :: "rat option"

text \<open>A trade with the two columns \<^verbatim>\<open>_calculate_ohlcv_candle_start_and_end\<close> adds.\<close>

record located_trade =
  tr :: trade
  candle_start :: int
  candle_end :: int

text \<open>The \<^verbatim>\<open>OrderedDict\<close>: keys in insertion order, oldest first.\<close>

type_synonym cache = "((int \<times> int) \<times> candle list) list"

datatype log_record =
    Warning_unfinished int nat int
  | Debug_no_candles int
  | Debug_groups_timing
  | Exception_logged exn

text \<open>What the function mutates in place or emits: the table, the cache, the log.\<close>

record state =
  dataframe :: "candle list"
  cached_grouped_trades :: cache
  logged :: "log_record list"

text \<open>
  Modelled from the spec: the collaborators of \<^verbatim>\<open>freqtrade.exchange\<close> are not
  part of the sources. The resample-frequency resolver returns the bucket width used to
  floor raw timestamps to interval starts; the boundary resolver maps an interval start
  to the start of the following interval. Either may raise.
\<close>

record exchange =
  timeframe_to_resample_freq :: "string \<Rightarrow> exn + int"
  timeframe_to_next_date :: "string \<Rightarrow> int \<Rightarrow> exn + int"

fun od_setitem :: "'k \<Rightarrow> 'v \<Rightarrow> ('k \<times> 'v) list \<Rightarrow> ('k \<times> 'v) list" where
  "od_setitem k v [] = [(k, v)]"
| "od_setitem k v (e # c) = (if fst e = k then (k, v) # c else e # od_setitem k v c)"

definition od_popitem_first :: "('k \<times> 'v) list \<Rightarrow> exn + ('k \<times> 'v) list" where
  "od_popitem_first c = (case c of [] \<Rightarrow> Inl KeyError | e # rest \<Rightarrow> Inr rest)"

fun mapM :: "('a \<Rightarrow> exn + 'b) \<Rightarrow> 'a list \<Rightarrow> exn + 'b list" where
  "mapM f [] = Inr []"
| "mapM f (x # xs) =
     (case f x of Inl e \<Rightarrow> Inl e
      | Inr y \<Rightarrow> (case mapM f xs of Inl e \<Rightarrow> Inl e | Inr ys \<Rightarrow> Inr (y # ys)))"

text \<open>\<^verbatim>\<open>DataFrame.tail(n)\<close>: nothing for \<open>0\<close>, else the slice \<^verbatim>\<open>[-n:]\<close>.\<close>

definition df_tail :: "int \<Rightarrow> 'a list \<Rightarrow> 'a list" where
  "df_tail n xs =
     (if n = 0 then [] else if 0 < n then drop (length xs - nat n) xs else drop (nat (- n)) xs)"

definition init_columns :: "candle \<Rightarrow> candle" where
  "init_columns r =
     r\<lparr>col_trades := None, col_orderflow := None, col_imbalances := None,
       col_stacked_imbalances_bid := None, col_stacked_imbalances_ask := None,
       col_max_delta := None, col_min_delta := None, col_bid := None, col_ask := None,
       col_delta := None, col_total_trades := None\<rparr>"

definition init_dataframe_with_trades_columns :: "candle list \<Rightarrow> candle list" where
  "init_dataframe_with_trades_columns df = map init_columns df"

text \<open>
  Lines 55 to 67. A trade's \<open>date\<close> is in milliseconds; flooring to a bucket of
  width \<open>w\<close> is \<open>date - date mod w\<close>, and a width that is not positive is no
  frequency pandas accepts. The two columns are added to the caller's trade table in
  place; the model returns the located trades instead.
\<close>

definition calculate_ohlcv_candle_start_and_end ::
  "exchange \<Rightarrow> trade list \<Rightarrow> string \<Rightarrow> exn + located_trade list" where
  "calculate_ohlcv_candle_start_and_end ex df tf =
     (case timeframe_to_resample_freq ex tf of Inl e \<Rightarrow> Inl e
      | Inr w \<Rightarrow>
          if df = [] then Inr []
          else if w \<le> 0 then Inl ValueError
          else (let starts = map (\<lambda>t. date t - date t mod w) df
                in case mapM (timeframe_to_next_date ex tf) starts of Inl e \<Rightarrow> Inl e
                   | Inr ends \<Rightarrow>
                       Inr (map (\<lambda>(t, s, e). \<lparr>tr = t, candle_start = s, candle_end = e\<rparr>)
                              (zip df (zip starts ends)))))"

text \<open>
  \<^verbatim>\<open>trades.groupby("candle_start")\<close>: one group per distinct key, keys ascending,
  the rows of a group in their original order.
\<close>

definition groupby_candle_start :: "located_trade list \<Rightarrow> (int \<times> located_trade list) list" where
  "groupby_candle_start ts =
     map (\<lambda>k. (k, filter (\<lambda>t. candle_start t = k) ts)) (sort (remdups (map candle_start ts)))"

section \<open>The orchestrator: one group\<close>

text \<open>
  The interval table carries pandas' default index, so the label
  \<^verbatim>\<open>dataframe.index[is_between][0]\<close> is the position of the first matching row.
\<close>

text \<open>
  Cache hit (lines 119 to 128): the first row of the entry is written to every matching
  row. \<^verbatim>\<open>iat[0]\<close> raises on an entry without rows.
\<close>

definition cache_hit :: "bool list \<Rightarrow> candle list \<Rightarrow> state \<Rightarrow> exn option \<times> state" where
  "cache_hit is_between cache_entry s =
     (case cache_entry of
        [] \<Rightarrow> (Some IndexError, s)
      | update_row # _ \<Rightarrow>
          (None, s\<lparr>dataframe :=
                     map2 (\<lambda>b r. if b then update_row else r) is_between (dataframe s)\<rparr>))"

definition bid_array :: "located_trade list \<Rightarrow> rat list" where
  "bid_array df = map (\<lambda>t. if str_contains (side (tr t)) ''sell'' then amount (tr t) else 0) df"

definition ask_array :: "located_trade list \<Rightarrow> rat list" where
  "ask_array df = map (\<lambda>t. if str_contains (side (tr t)) ''buy'' then amount (tr t) else 0) df"

text \<open>
  Lines 148 to 177: the cells written from the imbalance table and from the rows of the
  group, on top of the two cells written before (\<open>trades\<close> and \<open>orderflow\<close>).
\<close>

definition write_group_columns ::
  "config_orderflow \<Rightarrow> imbalances_df \<Rightarrow> located_trade list \<Rightarrow> candle \<Rightarrow> candle" where
  "write_group_columns co imbalances trades_grouped_df row =
     (let bids = bid_array trades_grouped_df;
          asks = ask_array trades_grouped_df;
          deltas_per_trade = map2 (\<lambda>a b. a - b) asks bids;
          min_delta = Min (set (cumsum deltas_per_trade));
          max_delta = Max (set (cumsum deltas_per_trade))
      in row\<lparr>col_imbalances := Some imbalances,
              col_stacked_imbalances_bid :=
                stacked_imbalance_bid imbalances (stacked_imbalance_range co),
              col_stacked_imbalances_ask :=
                stacked_imbalance_ask imbalances (stacked_imbalance_range co),
              col_max_delta := Some max_delta,
              col_min_delta := Some min_delta,
              col_bid := Some (sum_list bids),
              col_ask := Some (sum_list asks),
              col_delta := Some (sum_list asks - sum_list bids),
              col_total_trades := Some (of_nat (length trades_grouped_df))\<rparr>)"

text \<open>
  Lines 179 to 189: store the entry, then, in live or simulated-live mode and with more
  than \<open>cache_size\<close> entries, pop the oldest. The result is the exception raised, if
  any, and the cache as it is left.
\<close>

definition store_in_cache ::
  "config \<Rightarrow> int \<times> int \<Rightarrow> candle list \<Rightarrow> cache \<Rightarrow> exn option \<times> cache" where
  "store_in_cache cfg key entry c =
     (let c1 = od_setitem key entry c
      in if runmode cfg \<in> {Some DRY_RUN, Some LIVE} \<and>
            cache_size (orderflow cfg) < int (length c1)
         then (case od_popitem_first c1 of Inl e \<Rightarrow> (Some e, c1) | Inr c2 \<Rightarrow> (None, c2))
         else (None, c1))"

text \<open>
  Cache miss (lines 130 to 189). The imbalance function raises on the profile of a group
  without rows, after the first two cells were written; \<^verbatim>\<open>groupby\<close> never yields
  such a group.
\<close>

definition cache_miss ::
  "config \<Rightarrow> bool list \<Rightarrow> int \<times> int \<Rightarrow> located_trade list \<Rightarrow> state \<Rightarrow> exn option \<times> state" where
  "cache_miss cfg is_between key trades_grouped_df s =
     (case filter (\<lambda>i. is_between ! i) [0..<length is_between] of
        [] \<Rightarrow> (Some IndexError, s)
      | index # _ \<Rightarrow>
         (let co = orderflow cfg;
              oflow = trades_to_volumeprofile_with_total_delta_bid_ask
                        (map tr trades_grouped_df) (scale co);
              df0 = (dataframe s)[index := (dataframe s ! index)
                      \<lparr>col_trades := Some (map tr trades_grouped_df),
                       col_orderflow := Some (to_dict oflow)\<rparr>]
          in case trades_orderflow_to_imbalances oflow
                    (imbalance_ratio co) (imbalance_volume co) of
               Inl e \<Rightarrow> (Some e, s\<lparr>dataframe := df0\<rparr>)
             | Inr imbalances \<Rightarrow>
                (let df1 = df0[index := write_group_columns co imbalances trades_grouped_df
                                          (df0 ! index)];
                     stored = store_in_cache cfg key
                                (map snd (filter fst (zip is_between df1)))
                                (cached_grouped_trades s)
                 in (fst stored, s\<lparr>dataframe := df1, cached_grouped_trades := snd stored\<rparr>))))"

text \<open>The body of the loop (lines 108 to 191) for one group \<open>(key, rows)\<close>.\<close>

definition process_group ::
  "exchange \<Rightarrow> config \<Rightarrow> int list \<Rightarrow> int \<times> located_trade list \<Rightarrow> state
     \<Rightarrow> exn option \<times> state" where
  "process_group ex cfg group_keys g s =
     (let is_between = map (\<lambda>r. fst g = col_date r) (dataframe s)
      in if True \<in> set is_between then
           (case timeframe_to_next_date ex (timeframe cfg) (fst g) of
              Inl e \<Rightarrow> (Some e, s)
            | Inr candle_next \<Rightarrow>
               (let s1 = (if candle_next \<notin> set group_keys
                          then s\<lparr>logged := logged s @
                                   [Warning_unfinished (fst g) (length (snd g)) candle_next]\<rparr>
                          else s)
                in case map_of (cached_grouped_trades s1) (fst g, candle_next) of
                     Some cache_entry \<Rightarrow> cache_hit is_between cache_entry s1
                   | None \<Rightarrow> cache_miss cfg is_between (fst g, candle_next) (snd g) s1))
         else (None, s\<lparr>logged := logged s @ [Debug_no_candles (fst g)]\<rparr>))"

section \<open>The orchestrator: the whole call\<close>

fun run_groups ::
  "exchange \<Rightarrow> config \<Rightarrow> int list \<Rightarrow> (int \<times> located_trade list) list \<Rightarrow> state
     \<Rightarrow> exn option \<times> state" where
  "run_groups ex cfg group_keys [] s = (None, s)"
| "run_groups ex cfg group_keys (g # gs) s =
     (case process_group ex cfg group_keys g s of
        (Some e, s') \<Rightarrow> (Some e, s')
      | (None, s') \<Rightarrow> run_groups ex cfg group_keys gs s')"

text \<open>
  Lines 95 to 105: the trades located in their intervals, cut to the window of the last
  \<open>max_candles\<close> rows of the table, and grouped by interval start.
\<close>

definition trade_groups ::
  "exchange \<Rightarrow> config \<Rightarrow> trade list \<Rightarrow> candle list
     \<Rightarrow> exn + (int \<times> located_trade list) list" where
  "trade_groups ex cfg trades df =
     (case calculate_ohlcv_candle_start_and_end ex trades (timeframe cfg) of
        Inl e \<Rightarrow> Inl e
      | Inr located \<Rightarrow>
         (case df_tail (max_candles (orderflow cfg)) df of
            [] \<Rightarrow> Inl IndexError
          | first_row # _ \<Rightarrow>
             (let start_date = col_date first_row
              in Inr (groupby_candle_start
                        (filter (\<lambda>t. start_date \<le> candle_start t) located)))))"

text \<open>The \<^verbatim>\<open>try\<close> block (lines 93 to 192): the exception that leaves it, if any.\<close>

definition try_block :: "exchange \<Rightarrow> config \<Rightarrow> trade list \<Rightarrow> state \<Rightarrow> exn option \<times> state" where
  "try_block ex cfg trades s =
     (case trade_groups ex cfg trades (dataframe s) of
        Inl e \<Rightarrow> (Some e, s)
      | Inr trades_grouped_by_candle_start \<Rightarrow>
         (case run_groups ex cfg (map fst trades_grouped_by_candle_start)
                 trades_grouped_by_candle_start s of
            (Some e, s') \<Rightarrow> (Some e, s')
          | (None, s') \<Rightarrow> (None, s'\<lparr>logged := logged s' @ [Debug_groups_timing]\<rparr>)))"

text \<open>
  The state after line 88: the added columns reset on every row, the cache as passed in,
  nothing logged yet.
\<close>

definition start_state :: "candle list \<Rightarrow> cache \<Rightarrow> state" where
  "start_state df cached =
     \<lparr>dataframe = init_dataframe_with_trades_columns df,
      cached_grouped_trades = cached, logged = []\<rparr>"

text \<open>
  The result of a call: what it returns or raises, and the state it leaves behind (the
  table and the cache are mutated in place, so they outlive a raise).
\<close>

definition populate_dataframe_with_trades ::
  "exchange \<Rightarrow> cache \<Rightarrow> config \<Rightarrow> candle list \<Rightarrow> trade list option
     \<Rightarrow> (error + candle list \<times> cache) \<times> state" where
  "populate_dataframe_with_trades ex cached cfg df trades =
     (let s0 = start_state df cached
      in case trades of
           None \<Rightarrow> (Inr (dataframe s0, cached_grouped_trades s0), s0)
         | Some ts \<Rightarrow>
            if ts = [] then (Inr (dataframe s0, cached_grouped_trades s0), s0)
            else (case try_block ex cfg ts s0 of
                    (Some e, s) \<Rightarrow>
                      (Inl (DependencyException e), s\<lparr>logged := logged s @ [Exception_logged e]\<rparr>)
                  | (None, s) \<Rightarrow> (Inr (dataframe s, cached_grouped_trades s), s)))"

section \<open>Added columns, in the words of the specification\<close>

text \<open>Every field the engine adds to an interval row holds the unset value.\<close>

definition added_columns_unset :: "candle \<Rightarrow> bool" where
  "added_columns_unset r =
     (col_trades r = None \<and> col_orderflow r = None \<and> col_imbalances r = None \<and>
      col_stacked_imbalances_bid r = None \<and> col_stacked_imbalances_ask r = None \<and>
      col_max_delta r = None \<and> col_min_delta r = None \<and> col_bid r = None \<and>
      col_ask r = None \<and> col_delta r = None \<and> col_total_trades r = None)"

text \<open>Live or simulated-live operation, as line 186 tests it.\<close>

definition live_mode :: "config \<Rightarrow> bool" where
  "live_mode cfg = (runmode cfg \<in> {Some DRY_RUN, Some LIVE})"

section \<open>The cache, in the words of the specification\<close>

text \<open>
  Insert an entry as the newest; in live or simulated-live mode, if the cache now exceeds
  \<open>cache_size\<close>, evict the single oldest-inserted entry (the head).
\<close>

definition fifo_insert ::
  "config \<Rightarrow> (int \<times> int) \<times> candle list \<Rightarrow> cache \<Rightarrow> cache" where
  "fifo_insert cfg entry c =
     (if live_mode cfg \<and> cache_size (orderflow cfg) < int (length (c @ [entry]))
      then tl (c @ [entry]) else c @ [entry])"

section \<open>Example inputs\<close>

text \<open>The three trades of the interval 10:00 to 10:01 used as the running example.\<close>

definition example_trades :: "trade list" where
  "example_trades =
     [\<lparr>date = 36000000, price = 100, amount = 2, side = ''buy''\<rparr>,
      \<lparr>date = 36010000, price = 100, amount = 1, side = ''sell''\<rparr>,
      \<lparr>date = 36020000, price = 201 / 2, amount = 5, side = ''buy''\<rparr>]"

text \<open>One large sell below one small buy: the amounts and the trade counts disagree.\<close>

definition diagonal_trades :: "trade list" where
  "diagonal_trades =
     [\<lparr>date = 0, price = 100, amount = 10, side = ''sell''\<rparr>,
      \<lparr>date = 1, price = 101, amount = 1, side = ''buy''\<rparr>]"

text \<open>Four sells below one buy.\<close>

definition stacked_sells :: "trade list" where
  "stacked_sells =
     [\<lparr>date = 0, price = 100, amount = 1, side = ''sell''\<rparr>,
      \<lparr>date = 1, price = 100, amount = 1, side = ''sell''\<rparr>,
      \<lparr>date = 2, price = 100, amount = 1, side = ''sell''\<rparr>,
      \<lparr>date = 3, price = 100, amount = 1, side = ''sell''\<rparr>,
      \<lparr>date = 4, price = 101, amount = 1, side = ''buy''\<rparr>]"

text \<open>Two bins of buys below two bins of sells: every diagonal quotient has a zero in it.\<close>

definition one_sided_trades :: "trade list" where
  "one_sided_trades =
     [\<lparr>date = 0, price = 100, amount = 1, side = ''buy''\<rparr>,
      \<lparr>date = 1, price = 101, amount = 1, side = ''buy''\<rparr>,
      \<lparr>date = 2, price = 102, amount = 1, side = ''sell''\<rparr>,
      \<lparr>date = 3, price = 103, amount = 1, side = ''sell''\<rparr>]"

text \<open>One-minute intervals: timestamps in milliseconds, the next interval 60000 later.\<close>

definition minute_exchange :: exchange where
  "minute_exchange =
     \<lparr>timeframe_to_resample_freq = (\<lambda>tf. Inr 60000),
      timeframe_to_next_date = (\<lambda>tf d. Inr (d + 60000))\<rparr>"

definition example_config :: "RunMode option \<Rightarrow> int \<Rightarrow> config" where
  "example_config mode n =
     \<lparr>timeframe = ''1m'',
      orderflow = \<lparr>max_candles = 10, scale = 1 / 2, imbalance_ratio = 3, imbalance_volume = 0,
                   stacked_imbalance_range = 2, cache_size = n\<rparr>,
      runmode = mode\<rparr>"

definition blank_candle :: "int \<Rightarrow> candle" where
  "blank_candle d =
     \<lparr>col_date = d, col_ohlcv = [100, 101, 99, 100, 8],
      col_trades = None, col_orderflow = None, col_imbalances = None,
      col_stacked_imbalances_bid = None, col_stacked_imbalances_ask = None,
      col_max_delta = None, col_min_delta = None, col_bid = None, col_ask = None,
      col_delta = None, col_total_trades = None\<rparr>"

text \<open>
  Seven bins whose flags are true, true, false, true, true, true, false on both sides.
\<close>

definition example_imbalances :: imbalances_df where
  "example_imbalances =
     map (\<lambda>(p, b). (p, \<lparr>bid_imbalance = b, ask_imbalance = b\<rparr>))
       [(1, True), (2, True), (3, False), (4, True), (5, True), (6, True), (7, False)]"

text \<open>
  A cache holding one older entry, one holding two, and one whose entry for the example
  interval has no rows.
\<close>

definition old_cache :: cache where
  "old_cache = [((0, 60000), [blank_candle 0])]"

definition two_entry_cache :: cache where
  "two_entry_cache = [((0, 60000), [blank_candle 0]), ((60000, 120000), [blank_candle 60000])]"

definition broken_cache :: cache where
  "broken_cache = [((36000000, 36060000), [])]"

text \<open>A resolver that fails on every timeframe.\<close>

definition failing_exchange :: exchange where
  "failing_exchange =
     \<lparr>timeframe_to_resample_freq = (\<lambda>tf. Inl (ResolverError ''timeframe'')),
      timeframe_to_next_date = (\<lambda>tf d. Inr (d + 60000))\<rparr>"

text \<open>The example trades, located in the interval starting at 10:00.\<close>

definition example_group :: "int \<times> located_trade list" where
  "example_group =
     (36000000, map (\<lambda>t. \<lparr>tr = t, candle_start = 36000000, candle_end = 36060000\<rparr>)
                  example_trades)"

text \<open>Three consecutive one-minute intervals; the example trades fall into the second.\<close>

definition three_candles :: "candle list" where
  "three_candles = [blank_candle 35940000, blank_candle 36000000, blank_candle 36060000]"

section \<open>Imbalances: what each row holds\<close>

lemma shift_neg1_length: "length (shift_neg1 xs) = length xs"
  by (cases xs) (simp_all add: shift_neg1_def)

lemma shift_neg1_nth:
  "i < length xs \<Longrightarrow> shift_neg1 xs ! i = (if Suc i < length xs then Some (xs ! Suc i) else None)"
  by (cases xs) (auto simp: shift_neg1_def nth_append nth_tl)

lemma imbalance_flags_length:
  "length (imbalance_flags df r v) = length df"
  by (simp add: imbalance_flags_def Let_def shift_neg1_length)

lemma imbalance_flags_nth:
  assumes "i < length df"
  shows "imbalance_flags df r v ! i =
    (fst (df ! i),
     \<lparr>bid_imbalance = (\<not> total_volume (snd (df ! i)) < v \<and>
         fgt (fdiv (Some (bid (snd (df ! i))))
                (if Suc i < length df then Some (ask (snd (df ! Suc i))) else None)) r),
      ask_imbalance = (\<not> total_volume (snd (df ! i)) < v \<and>
         fgt (fdiv (if Suc i < length df then Some (ask (snd (df ! Suc i))) else None)
                (Some (bid (snd (df ! i))))) r)\<rparr>)"
  using assms
  by (simp add: imbalance_flags_def Let_def shift_neg1_length shift_neg1_nth)

lemma imbalances_of_binned:
  "trades_orderflow_to_imbalances (Binned df) r v = Inr (imbalance_flags df r v)"
  by (simp add: trades_orderflow_to_imbalances_def)

lemma profile_of_trades:
  "trades \<noteq> [] \<Longrightarrow>
     trades_to_volumeprofile_with_total_delta_bid_ask trades sc =
       Binned (groupby_price_sum (map (trade_row sc) trades))"
  by (simp add: trades_to_volumeprofile_with_total_delta_bid_ask_def Let_def)

text \<open>
  C8. For every volume profile, every bin whose \<open>total_volume\<close> is strictly below
  \<open>imbalance_volume\<close> has both flags false in the imbalance table, whatever the
  quotients are.
\<close>

theorem imbalance_volume_filter:
  assumes "i < length df" and "total_volume (snd (df ! i)) < v"
  shows "\<exists>imb. trades_orderflow_to_imbalances (Binned df) r v = Inr imb \<and>
           length imb = length df \<and>
           \<not> bid_imbalance (snd (imb ! i)) \<and> \<not> ask_imbalance (snd (imb ! i))"
  using assms by (simp add: imbalances_of_binned imbalance_flags_nth imbalance_flags_length)

text \<open>
  At the profile of four sells below one buy the quotient of the lowest bin is 4, above
  the ratio 3: with the threshold 4 the flag is set, with the threshold 5 the bin's
  volume 4 is below it and the flag is not.
\<close>

theorem imbalance_volume_filter_witness:
  "trades_to_volumeprofile_with_total_delta_bid_ask stacked_sells 1 =
     Binned [(100, \<lparr>bid_amount = 4, ask_amount = 0, bid = 4, ask = 0, delta = - 4,
                     total_volume = 4, total_trades = 4\<rparr>),
             (101, \<lparr>bid_amount = 0, ask_amount = 1, bid = 0, ask = 1, delta = 1,
                     total_volume = 1, total_trades = 1\<rparr>)] \<and>
   fgt (fdiv (Some 4) (Some 1)) 3 \<and>
   trades_orderflow_to_imbalances
       (trades_to_volumeprofile_with_total_delta_bid_ask stacked_sells 1) 3 4 =
     Inr [(100, \<lparr>bid_imbalance = True, ask_imbalance = False\<rparr>),
          (101, \<lparr>bid_imbalance = False, ask_imbalance = False\<rparr>)] \<and>
   trades_orderflow_to_imbalances
       (trades_to_volumeprofile_with_total_delta_bid_ask stacked_sells 1) 3 5 =
     Inr [(100, \<lparr>bid_imbalance = False, ask_imbalance = False\<rparr>),
          (101, \<lparr>bid_imbalance = False, ask_imbalance = False\<rparr>)]"
proof -
  let ?rows = "[(100, \<lparr>bid_amount = 4, ask_amount = 0, bid = 4, ask = 0, delta = - 4,
                     total_volume = 4, total_trades = 4\<rparr>),
             (101, \<lparr>bid_amount = 0, ask_amount = 1, bid = 0, ask = 1, delta = 1,
                     total_volume = 1, total_trades = 1\<rparr>)] :: orderflow_rows"
  have p: "trades_to_volumeprofile_with_total_delta_bid_ask stacked_sells 1 = Binned ?rows"
    by code_simp
  have h1: "0 < length ?rows" by simp
  have h2: "total_volume (snd (?rows ! 0)) < 5" by simp
  have q: "fgt (fdiv (Some 4) (Some 1)) 3" by simp
  have e4: "trades_orderflow_to_imbalances
       (trades_to_volumeprofile_with_total_delta_bid_ask stacked_sells 1) 3 4 =
     Inr [(100, \<lparr>bid_imbalance = True, ask_imbalance = False\<rparr>),
          (101, \<lparr>bid_imbalance = False, ask_imbalance = False\<rparr>)]"
    by code_simp
  have e5: "trades_orderflow_to_imbalances
       (trades_to_volumeprofile_with_total_delta_bid_ask stacked_sells 1) 3 5 =
     Inr [(100, \<lparr>bid_imbalance = False, ask_imbalance = False\<rparr>),
          (101, \<lparr>bid_imbalance = False, ask_imbalance = False\<rparr>)]"
    by code_simp
  from imbalance_volume_filter [OF h1 h2, of 3] p q e4 e5 show ?thesis by blast
qed

text \<open>
  C9. For every non-empty volume profile, the topmost bin (the last row, at the highest
  price) of the imbalance table has both flags false: the diagonal partner of its count
  is the NaN that \<^verbatim>\<open>shift(-1)\<close> leaves, and no comparison with NaN holds.
\<close>

theorem top_bin_no_imbalance:
  assumes "df \<noteq> []"
  shows "\<exists>imb. trades_orderflow_to_imbalances (Binned df) r v = Inr imb \<and>
           length imb = length df \<and>
           fst (last imb) = fst (last df) \<and>
           \<not> bid_imbalance (snd (last imb)) \<and> \<not> ask_imbalance (snd (last imb))"
proof -
  let ?imb = "imbalance_flags df r v"
  have n: "length df - 1 < length df"
    using assms by simp
  have "?imb \<noteq> []"
    using assms imbalance_flags_length [of df r v] by auto
  then have "last ?imb = ?imb ! (length df - 1)"
    by (simp add: last_conv_nth imbalance_flags_length)
  then have "fst (last ?imb) = fst (last df) \<and>
      \<not> bid_imbalance (snd (last ?imb)) \<and> \<not> ask_imbalance (snd (last ?imb))"
    using n assms by (simp add: imbalance_flags_nth last_conv_nth)
  then show ?thesis
    by (simp add: imbalances_of_binned imbalance_flags_length)
qed

theorem top_bin_no_imbalance_witness:
  "trades_to_volumeprofile_with_total_delta_bid_ask one_sided_trades 1 =
     Binned [(100, \<lparr>bid_amount = 0, ask_amount = 1, bid = 0, ask = 1, delta = 1,
                     total_volume = 1, total_trades = 1\<rparr>),
             (101, \<lparr>bid_amount = 0, ask_amount = 1, bid = 0, ask = 1, delta = 1,
                     total_volume = 1, total_trades = 1\<rparr>),
             (102, \<lparr>bid_amount = 1, ask_amount = 0, bid = 1, ask = 0, delta = - 1,
                     total_volume = 1, total_trades = 1\<rparr>),
             (103, \<lparr>bid_amount = 1, ask_amount = 0, bid = 1, ask = 0, delta = - 1,
                     total_volume = 1, total_trades = 1\<rparr>)] \<and>
   trades_orderflow_to_imbalances
       (trades_to_volumeprofile_with_total_delta_bid_ask one_sided_trades 1) 3 0 =
     Inr [(100, \<lparr>bid_imbalance = False, ask_imbalance = True\<rparr>),
          (101, \<lparr>bid_imbalance = False, ask_imbalance = False\<rparr>),
          (102, \<lparr>bid_imbalance = True, ask_imbalance = False\<rparr>),
          (103, \<lparr>bid_imbalance = False, ask_imbalance = False\<rparr>)]"
proof -
  let ?rows = "[(100, \<lparr>bid_amount = 0, ask_amount = 1, bid = 0, ask = 1, delta = 1,
                     total_volume = 1, total_trades = 1\<rparr>),
             (101, \<lparr>bid_amount = 0, ask_amount = 1, bid = 0, ask = 1, delta = 1,
                     total_volume = 1, total_trades = 1\<rparr>),
             (102, \<lparr>bid_amount = 1, ask_amount = 0, bid = 1, ask = 0, delta = - 1,
                     total_volume = 1, total_trades = 1\<rparr>),
             (103, \<lparr>bid_amount = 1, ask_amount = 0, bid = 1, ask = 0, delta = - 1,
                     total_volume = 1, total_trades = 1\<rparr>)] :: orderflow_rows"
  have p: "trades_to_volumeprofile_with_total_delta_bid_ask one_sided_trades 1 = Binned ?rows"
    by code_simp
  have h: "?rows \<noteq> []" by simp
  have e: "trades_orderflow_to_imbalances
       (trades_to_volumeprofile_with_total_delta_bid_ask one_sided_trades 1) 3 0 =
     Inr [(100, \<lparr>bid_imbalance = False, ask_imbalance = True\<rparr>),
          (101, \<lparr>bid_imbalance = False, ask_imbalance = False\<rparr>),
          (102, \<lparr>bid_imbalance = True, ask_imbalance = False\<rparr>),
          (103, \<lparr>bid_imbalance = False, ask_imbalance = False\<rparr>)]"
    by code_simp
  from top_bin_no_imbalance [OF h, of 3 0] p e show ?thesis by blast
qed

text \<open>
  C1, as the code has it. The detector reads the columns \<open>bid\<close> and \<open>ask\<close> of the
  profile, which hold the numbers of sell and of buy trades of a bin, not the amounts.
  For every volume profile and every bin \<open>i\<close> with a next bin, \<open>bid_imbalance[i]\<close> is
  true exactly when \<open>total_volume[i]\<close> is not below \<open>imbalance_volume\<close> and the
  quotient of the trade counts \<open>bid[i] / ask[i+1]\<close> exceeds \<open>imbalance_ratio\<close>, and
  \<open>ask_imbalance[i]\<close> is true exactly when \<open>total_volume[i]\<close> is not below
  \<open>imbalance_volume\<close> and \<open>ask[i+1] / bid[i]\<close> exceeds \<open>imbalance_ratio\<close>.
\<close>

theorem diagonal_imbalance_on_counts:
  assumes "Suc i < length df"
  shows "\<exists>imb. trades_orderflow_to_imbalances (Binned df) r v = Inr imb \<and>
           length imb = length df \<and>
           bid_imbalance (snd (imb ! i)) =
             (\<not> total_volume (snd (df ! i)) < v \<and>
              fgt (fdiv (Some (bid (snd (df ! i)))) (Some (ask (snd (df ! Suc i))))) r) \<and>
           ask_imbalance (snd (imb ! i)) =
             (\<not> total_volume (snd (df ! i)) < v \<and>
              fgt (fdiv (Some (ask (snd (df ! Suc i)))) (Some (bid (snd (df ! i))))) r)"
  using assms by (simp add: imbalances_of_binned imbalance_flags_nth imbalance_flags_length)

text \<open>Four sells below one buy: the quotient of the counts is 4, above the ratio 3.\<close>

theorem diagonal_imbalance_on_counts_witness:
  "trades_to_volumeprofile_with_total_delta_bid_ask stacked_sells 1 =
     Binned [(100, \<lparr>bid_amount = 4, ask_amount = 0, bid = 4, ask = 0, delta = - 4,
                     total_volume = 4, total_trades = 4\<rparr>),
             (101, \<lparr>bid_amount = 0, ask_amount = 1, bid = 0, ask = 1, delta = 1,
                     total_volume = 1, total_trades = 1\<rparr>)] \<and>
   fgt (fdiv (Some 4) (Some 1)) 3 \<and> \<not> fgt (fdiv (Some 1) (Some 4)) 3 \<and>
   trades_orderflow_to_imbalances
       (trades_to_volumeprofile_with_total_delta_bid_ask stacked_sells 1) 3 4 =
     Inr [(100, \<lparr>bid_imbalance = True, ask_imbalance = False\<rparr>),
          (101, \<lparr>bid_imbalance = False, ask_imbalance = False\<rparr>)]"
proof -
  let ?rows = "[(100, \<lparr>bid_amount = 4, ask_amount = 0, bid = 4, ask = 0, delta = - 4,
                     total_volume = 4, total_trades = 4\<rparr>),
             (101, \<lparr>bid_amount = 0, ask_amount = 1, bid = 0, ask = 1, delta = 1,
                     total_volume = 1, total_trades = 1\<rparr>)] :: orderflow_rows"
  have p: "trades_to_volumeprofile_with_total_delta_bid_ask stacked_sells 1 = Binned ?rows"
    by code_simp
  have h: "Suc 0 < length ?rows" by simp
  have q: "fgt (fdiv (Some 4) (Some 1)) 3" "\<not> fgt (fdiv (Some 1) (Some 4)) 3" by simp_all
  have e: "trades_orderflow_to_imbalances
       (trades_to_volumeprofile_with_total_delta_bid_ask stacked_sells 1) 3 4 =
     Inr [(100, \<lparr>bid_imbalance = True, ask_imbalance = False\<rparr>),
          (101, \<lparr>bid_imbalance = False, ask_imbalance = False\<rparr>)]"
    by code_simp
  from diagonal_imbalance_on_counts [OF h, of 3 4] p q e show ?thesis by blast
qed

text \<open>
  The claim as the spec words it, on amounts, fails: one sell of amount 10 below one buy
  of amount 1 gives \<open>bid_amount[0] / ask_amount[1] = 10\<close>, above the ratio 3, and a
  volume no filter removes, yet \<open>bid_imbalance[0]\<close> is false, since the counts are one
  trade each.
\<close>

theorem diagonal_imbalance_on_amounts_counterexample:
  "trades_to_volumeprofile_with_total_delta_bid_ask diagonal_trades 1 =
     Binned [(100, \<lparr>bid_amount = 10, ask_amount = 0, bid = 1, ask = 0, delta = - 10,
                     total_volume = 10, total_trades = 1\<rparr>),
             (101, \<lparr>bid_amount = 0, ask_amount = 1, bid = 0, ask = 1, delta = 1,
                     total_volume = 1, total_trades = 1\<rparr>)] \<and>
   3 < bid_amount (snd (to_dict
           (trades_to_volumeprofile_with_total_delta_bid_ask diagonal_trades 1) ! 0))
       / ask_amount (snd (to_dict
           (trades_to_volumeprofile_with_total_delta_bid_ask diagonal_trades 1) ! 1)) \<and>
   \<not> total_volume (snd (to_dict
           (trades_to_volumeprofile_with_total_delta_bid_ask diagonal_trades 1) ! 0)) < 0 \<and>
   trades_orderflow_to_imbalances
       (trades_to_volumeprofile_with_total_delta_bid_ask diagonal_trades 1) 3 0 =
     Inr [(100, \<lparr>bid_imbalance = False, ask_imbalance = False\<rparr>),
          (101, \<lparr>bid_imbalance = False, ask_imbalance = False\<rparr>)]"
  by code_simp

text \<open>
  C10, as the code has it. On every profile that has its columns (every profile built
  from at least one trade is one) the detector raises nothing and returns one row of two
  booleans for each bin, and division by zero decides the flag: for a bin \<open>i\<close> with a
  next bin and enough volume, a positive numerator over a zero partner makes the flag
  true (the quotient is infinite), and zero over zero makes both flags false (the
  quotient is NaN).
\<close>

theorem division_by_zero_policy:
  "(\<exists>imb. trades_orderflow_to_imbalances (Binned df) r v = Inr imb \<and>
      length imb = length df \<and> map fst imb = map fst df \<and>
      (\<forall>i. Suc i < length df \<and> \<not> total_volume (snd (df ! i)) < v \<longrightarrow>
         (0 < bid (snd (df ! i)) \<and> ask (snd (df ! Suc i)) = 0 \<longrightarrow>
            bid_imbalance (snd (imb ! i))) \<and>
         (0 < ask (snd (df ! Suc i)) \<and> bid (snd (df ! i)) = 0 \<longrightarrow>
            ask_imbalance (snd (imb ! i))) \<and>
         (bid (snd (df ! i)) = 0 \<and> ask (snd (df ! Suc i)) = 0 \<longrightarrow>
            \<not> bid_imbalance (snd (imb ! i)) \<and> \<not> ask_imbalance (snd (imb ! i))))) \<and>
   (trades \<noteq> [] \<longrightarrow>
      (\<exists>rows. trades_to_volumeprofile_with_total_delta_bid_ask trades sc = Binned rows))"
proof -
  have "map fst (imbalance_flags df r v) = map fst df"
    by (rule nth_equalityI) (simp_all add: imbalance_flags_length imbalance_flags_nth)
  then show ?thesis
    by (simp add: imbalances_of_binned imbalance_flags_length imbalance_flags_nth
          profile_of_trades)
qed

text \<open>
  Buys at 100 and 101, sells at 102 and 103: bin 0 has \<open>ask[1] / bid[0] = 1/0\<close>,
  bin 1 has \<open>0/0\<close> both ways, bin 2 has \<open>bid[2] / ask[3] = 1/0\<close>.
\<close>

theorem division_by_zero_policy_witness:
  "one_sided_trades \<noteq> [] \<and>
   trades_to_volumeprofile_with_total_delta_bid_ask one_sided_trades 1 =
     Binned [(100, \<lparr>bid_amount = 0, ask_amount = 1, bid = 0, ask = 1, delta = 1,
                     total_volume = 1, total_trades = 1\<rparr>),
             (101, \<lparr>bid_amount = 0, ask_amount = 1, bid = 0, ask = 1, delta = 1,
                     total_volume = 1, total_trades = 1\<rparr>),
             (102, \<lparr>bid_amount = 1, ask_amount = 0, bid = 1, ask = 0, delta = - 1,
                     total_volume = 1, total_trades = 1\<rparr>),
             (103, \<lparr>bid_amount = 1, ask_amount = 0, bid = 1, ask = 0, delta = - 1,
                     total_volume = 1, total_trades = 1\<rparr>)] \<and>
   trades_orderflow_to_imbalances
       (trades_to_volumeprofile_with_total_delta_bid_ask one_sided_trades 1) 3 1 =
     Inr [(100, \<lparr>bid_imbalance = False, ask_imbalance = True\<rparr>),
          (101, \<lparr>bid_imbalance = False, ask_imbalance = False\<rparr>),
          (102, \<lparr>bid_imbalance = True, ask_imbalance = False\<rparr>),
          (103, \<lparr>bid_imbalance = False, ask_imbalance = False\<rparr>)]"
proof -
  have n: "one_sided_trades \<noteq> []"
    by (simp add: one_sided_trades_def)
  have p: "trades_to_volumeprofile_with_total_delta_bid_ask one_sided_trades 1 =
     Binned [(100, \<lparr>bid_amount = 0, ask_amount = 1, bid = 0, ask = 1, delta = 1,
                     total_volume = 1, total_trades = 1\<rparr>),
             (101, \<lparr>bid_amount = 0, ask_amount = 1, bid = 0, ask = 1, delta = 1,
                     total_volume = 1, total_trades = 1\<rparr>),
             (102, \<lparr>bid_amount = 1, ask_amount = 0, bid = 1, ask = 0, delta = - 1,
                     total_volume = 1, total_trades = 1\<rparr>),
             (103, \<lparr>bid_amount = 1, ask_amount = 0, bid = 1, ask = 0, delta = - 1,
                     total_volume = 1, total_trades = 1\<rparr>)]"
    by code_simp
  have e: "trades_orderflow_to_imbalances
       (trades_to_volumeprofile_with_total_delta_bid_ask one_sided_trades 1) 3 1 =
     Inr [(100, \<lparr>bid_imbalance = False, ask_imbalance = True\<rparr>),
          (101, \<lparr>bid_imbalance = False, ask_imbalance = False\<rparr>),
          (102, \<lparr>bid_imbalance = True, ask_imbalance = False\<rparr>),
          (103, \<lparr>bid_imbalance = False, ask_imbalance = False\<rparr>)]"
    by code_simp
  from division_by_zero_policy
         [of "to_dict (trades_to_volumeprofile_with_total_delta_bid_ask one_sided_trades 1)"
             3 1 one_sided_trades 1] n p e
  show ?thesis by blast
qed

text \<open>
  The claim for every input fails: on the frame the builder returns for no trades the
  detector raises \<open>AttributeError\<close>.
\<close>

theorem no_trades_profile_raises_counterexample:
  "trades_to_volumeprofile_with_total_delta_bid_ask [] 1 = No_trades \<and>
   trades_orderflow_to_imbalances
       (trades_to_volumeprofile_with_total_delta_bid_ask [] 1) 3 0 = Inl AttributeError"
  by code_simp

section \<open>The running example\<close>

text \<open>
  C5. For the interval holding exactly the trades (100.0, buy, 2), (100.0, sell, 1) and
  (100.5, buy, 5), with scale 0.5, the volume profile has exactly the bins 100.0 with
  \<open>bid_amount = 1\<close>, \<open>ask_amount = 2\<close>, \<open>delta = 1\<close>, \<open>total_volume = 3\<close>,
  \<open>total_trades = 2\<close> and 100.5 with \<open>bid_amount = 0\<close>, \<open>ask_amount = 5\<close>,
  \<open>delta = 5\<close>, \<open>total_volume = 5\<close>, \<open>total_trades = 1\<close>, and the orchestrator
  writes the interval totals \<open>bid = 1\<close>, \<open>ask = 7\<close>, \<open>delta = 6\<close>,
  \<open>total_trades = 3\<close> into the interval's row.
\<close>

theorem example_interval:
  "trades_to_volumeprofile_with_total_delta_bid_ask example_trades (1 / 2) =
     Binned
       [(100, \<lparr>bid_amount = 1, ask_amount = 2, bid = 1, ask = 1, delta = 1,
                total_volume = 3, total_trades = 2\<rparr>),
        (201 / 2, \<lparr>bid_amount = 0, ask_amount = 5, bid = 0, ask = 1, delta = 5,
                    total_volume = 5, total_trades = 1\<rparr>)] \<and>
   map_sum id fst (fst (populate_dataframe_with_trades minute_exchange []
       (example_config (Some LIVE) 1) [blank_candle 36000000] (Some example_trades))) =
     Inr [\<lparr>col_date = 36000000, col_ohlcv = [100, 101, 99, 100, 8],
           col_trades = Some example_trades,
           col_orderflow = Some
             [(100, \<lparr>bid_amount = 1, ask_amount = 2, bid = 1, ask = 1, delta = 1,
                      total_volume = 3, total_trades = 2\<rparr>),
              (201 / 2, \<lparr>bid_amount = 0, ask_amount = 5, bid = 0, ask = 1, delta = 5,
                          total_volume = 5, total_trades = 1\<rparr>)],
           col_imbalances = Some
             [(100, \<lparr>bid_imbalance = False, ask_imbalance = False\<rparr>),
              (201 / 2, \<lparr>bid_imbalance = False, ask_imbalance = False\<rparr>)],
           col_stacked_imbalances_bid = None, col_stacked_imbalances_ask = None,
           col_max_delta = Some 6, col_min_delta = Some 1,
           col_bid = Some 1, col_ask = Some 7, col_delta = Some 6,
           col_total_trades = Some 3\<rparr>]"
  by code_simp

section \<open>Stacked imbalances: the series is the run length\<close>

lemma cumsum_from_length: "length (cumsum_from a xs) = length xs"
  by (induction xs arbitrary: a) simp_all

lemma cumsum_from_nth:
  "i < length xs \<Longrightarrow> cumsum_from a xs ! i = a + sum_list (take (Suc i) xs)"
proof (induction xs arbitrary: a i)
  case Nil
  then show ?case by simp
next
  case (Cons x xs)
  show ?case
  proof (cases i)
    case 0
    then show ?thesis by simp
  next
    case (Suc j)
    with Cons.prems have "j < length xs" by simp
    from Cons.IH [OF this, of "a + x"] Suc show ?thesis
      by (simp add: add.assoc)
  qed
qed

lemma shift1_length: "length (shift1 xs) = length xs"
  by (cases xs) (simp_all add: shift1_def)

lemma shift1_nth:
  "i < length xs \<Longrightarrow> shift1 xs ! i = (if i = 0 then None else Some (xs ! (i - 1)))"
  by (cases i) (auto simp: shift1_def nth_butlast)

lemma run_keys_length: "length (run_keys xs) = length xs"
  by (simp add: run_keys_def cumsum_def cumsum_from_length shift1_length)

lemma run_keys_Suc:
  assumes "Suc i < length xs"
  shows "run_keys xs ! Suc i = run_keys xs ! i + (if xs ! Suc i \<noteq> xs ! i then 1 else 0)"
proof -
  let ?cs = "map (\<lambda>c. if c then (1::int) else 0)
               (map2 (\<lambda>v p. Some v \<noteq> p) xs (shift1 xs))"
  have len: "length ?cs = length xs" by (simp add: shift1_length)
  have "take (Suc (Suc i)) ?cs = take (Suc i) ?cs @ [?cs ! Suc i]"
    using assms len by (simp add: take_Suc_conv_app_nth)
  moreover have "?cs ! Suc i = (if xs ! Suc i \<noteq> xs ! i then 1 else 0)"
    using assms by (simp add: shift1_length shift1_nth)
  ultimately show ?thesis
    using assms len by (simp add: run_keys_def cumsum_def cumsum_from_nth)
qed

lemma run_keys_mono:
  assumes "i < length xs" and "j \<le> i"
  shows "run_keys xs ! j \<le> run_keys xs ! i"
  using assms
proof (induction i)
  case 0
  then show ?case by simp
next
  case (Suc i)
  show ?case
  proof (cases "j = Suc i")
    case True
    then show ?thesis by simp
  next
    case False
    with Suc.prems have "j \<le> i" and "i < length xs" by simp_all
    with Suc.IH have "run_keys xs ! j \<le> run_keys xs ! i" by simp
    then show ?thesis using run_keys_Suc [OF Suc.prems(1)] by simp
  qed
qed

lemma cumcount_length: "length (cumcount ks) = length ks"
  by (simp add: cumcount_def)

lemma cumcount_nth:
  "i < length ks \<Longrightarrow> cumcount ks ! i = length (filter (\<lambda>k. k = ks ! i) (take i ks))"
  by (simp add: cumcount_def)

lemma cumcount_run_keys_Suc:
  assumes "Suc i < length xs"
  shows "cumcount (run_keys xs) ! Suc i =
           (if xs ! Suc i \<noteq> xs ! i then 0 else Suc (cumcount (run_keys xs) ! i))"
proof -
  let ?ks = "run_keys xs"
  have len: "Suc i < length ?ks" "i < length ?ks"
    using assms by (simp_all add: run_keys_length)
  have tk: "take (Suc i) ?ks = take i ?ks @ [?ks ! i]"
    using len by (simp add: take_Suc_conv_app_nth)
  show ?thesis
  proof (cases "xs ! Suc i \<noteq> xs ! i")
    case True
    then have k: "?ks ! Suc i = ?ks ! i + 1"
      using run_keys_Suc [OF assms] by simp
    have "\<forall>k \<in> set (take (Suc i) ?ks). k \<noteq> ?ks ! Suc i"
    proof
      fix k assume "k \<in> set (take (Suc i) ?ks)"
      then obtain j where j: "j < Suc i" "k = ?ks ! j"
        using len by (auto simp: in_set_conv_nth)
      then have "k \<le> ?ks ! i"
        using run_keys_mono [of i xs j] assms by simp
      then show "k \<noteq> ?ks ! Suc i" using k by simp
    qed
    then have "filter (\<lambda>k. k = ?ks ! Suc i) (take (Suc i) ?ks) = []"
      by (simp add: filter_empty_conv)
    then show ?thesis using True len by (simp add: cumcount_nth)
  next
    case False
    then have k: "?ks ! Suc i = ?ks ! i"
      using run_keys_Suc [OF assms] by simp
    show ?thesis using False len by (simp add: cumcount_nth k tk)
  qed
qed

lemma stacked_series_length: "length (stacked_series bs) = length bs"
  by (simp add: stacked_series_def Let_def cumcount_length run_keys_length)

lemma stacked_series_nth:
  "i < length bs \<Longrightarrow>
     stacked_series bs ! i =
       (if bs ! i then int (cumcount (run_keys (map (\<lambda>b. if b then 1 else 0) bs)) ! i) + 1 else 0)"
  by (simp add: stacked_series_def Let_def cumcount_length run_keys_length)

lemma run_length_0: "0 < length bs \<Longrightarrow> run_length_ending_at bs 0 = (if bs ! 0 then 1 else 0)"
  by (cases bs) (simp_all add: run_length_ending_at_def)

lemma run_length_Suc:
  "Suc i < length bs \<Longrightarrow>
     run_length_ending_at bs (Suc i) = (if bs ! Suc i then Suc (run_length_ending_at bs i) else 0)"
  by (simp add: run_length_ending_at_def take_Suc_conv_app_nth [of "Suc i"])

lemma stacked_series_run_length:
  "i < length bs \<Longrightarrow> stacked_series bs ! i = int (run_length_ending_at bs i)"
proof (induction i)
  case 0
  then show ?case
    by (simp add: stacked_series_nth run_length_0 cumcount_nth run_keys_length)
next
  case (Suc i)
  then have i: "i < length bs" by simp
  let ?xs = "map (\<lambda>b. if b then (1::int) else 0) bs"
  have len: "Suc i < length ?xs" using Suc.prems by simp
  have ne: "(?xs ! Suc i \<noteq> ?xs ! i) = (bs ! Suc i \<noteq> bs ! i)"
    using Suc.prems by simp
  show ?case
    using Suc.IH [OF i] Suc.prems i
    by (auto simp: stacked_series_nth run_length_Suc cumcount_run_keys_Suc [OF len] ne
          split: if_splits)
qed

section \<open>Stacked imbalances: first and last qualifying position\<close>

lemma sorted_filter_upt: "sorted (filter P [0..<n])"
  by (rule sorted_wrt_filter) (rule sorted_upt)

lemma hd_filter_upt:
  assumes "filter P [0..<n] \<noteq> []"
  shows "hd (filter P [0..<n]) < n \<and> P (hd (filter P [0..<n])) \<and>
         (\<forall>k<hd (filter P [0..<n]). \<not> P k)"
proof -
  obtain y ys where f: "filter P [0..<n] = y # ys"
    using assms by (cases "filter P [0..<n]") auto
  have "sorted (y # ys)"
    using sorted_filter_upt [of P n] unfolding f .
  then have le: "\<forall>z\<in>set ys. y \<le> z" by simp
  have "y \<in> set (filter P [0..<n])" unfolding f by simp
  then have y: "y < n" "P y" by simp_all
  have "\<not> P k" if "k < y" for k
  proof
    assume "P k"
    moreover have "k < n" using that y by simp
    ultimately have "k \<in> set (filter P [0..<n])" by simp
    then have "k = y \<or> k \<in> set ys" unfolding f by simp
    then have "y \<le> k" using le by blast
    then show False using that by simp
  qed
  then show ?thesis using y unfolding f by simp
qed

lemma last_filter_upt:
  assumes "filter P [0..<n] \<noteq> []"
  shows "hd (rev (filter P [0..<n])) < n \<and> P (hd (rev (filter P [0..<n]))) \<and>
         (\<forall>k<n. hd (rev (filter P [0..<n])) < k \<longrightarrow> \<not> P k)"
proof -
  define f where "f = filter P [0..<n]"
  have ne: "f \<noteq> []" using assms by (simp add: f_def)
  have hl: "hd (rev (filter P [0..<n])) = last (filter P [0..<n])"
    using assms by (metis hd_rev)
  have s: "sorted f" unfolding f_def by (rule sorted_filter_upt)
  have "last f \<in> set f" using ne by (rule last_in_set)
  then have "last f \<in> set (filter P [0..<n])" by (simp only: f_def)
  then have y: "last f < n" "P (last f)" by simp_all
  have "\<not> P k" if "last f < k" "k < n" for k
  proof
    assume "P k"
    then have "k \<in> set (filter P [0..<n])" using that by simp
    then have "k \<in> set f" by (simp only: f_def)
    then obtain j where j: "j < length f" "f ! j = k"
      unfolding in_set_conv_nth by blast
    have "j \<le> length f - 1" using j(1) by simp
    moreover have "length f - 1 < length f" using ne by simp
    ultimately have "f ! j \<le> f ! (length f - 1)"
      using s by (rule sorted_nth_mono [rotated])
    then have "k \<le> last f" using j ne by (simp add: last_conv_nth)
    then show False using that by simp
  qed
  then have "\<forall>k<n. last f < k \<longrightarrow> \<not> P k" by blast
  then have "last f < n \<and> P (last f) \<and> (\<forall>k<n. last f < k \<longrightarrow> \<not> P k)"
    using y by blast
  then show ?thesis unfolding f_def hl .
qed

lemma stacked_idx_qualifies:
  "filter (\<lambda>i. rng \<le> stacked_series bs ! i) [0..<length (stacked_series bs)] =
   filter (qualifies bs rng) [0..<length bs]"
  by (rule filter_cong) (auto simp: stacked_series_length qualifies_def stacked_series_run_length)

lemma stacked_imbalance_None:
  "(stacked_imbalance imb rng rv = None) = (\<forall>i. \<not> qualifies (map snd imb) rng i)"
proof -
  have "(filter (qualifies (map snd imb) rng) [0..<length imb] = []) =
        (\<forall>i. \<not> qualifies (map snd imb) rng i)"
    by (auto simp: filter_empty_conv qualifies_def)
  then show ?thesis
    using stacked_idx_qualifies [of rng "map snd imb"]
    by (simp add: stacked_imbalance_def Let_def)
qed

lemma stacked_imbalance_first:
  assumes "qualifies (map snd imb) rng i"
  shows "\<exists>j. qualifies (map snd imb) rng j \<and> (\<forall>k<j. \<not> qualifies (map snd imb) rng k) \<and>
             stacked_imbalance imb rng False = Some (fst (imb ! j))"
proof -
  let ?f = "filter (qualifies (map snd imb) rng) [0..<length imb]"
  have "i \<in> set ?f" using assms by (simp add: qualifies_def)
  then have ne: "?f \<noteq> []" by (metis empty_iff list.set(1))
  have "stacked_imbalance imb rng False = Some (fst (imb ! hd ?f))"
    using ne stacked_idx_qualifies [of rng "map snd imb"]
    by (simp add: stacked_imbalance_def Let_def)
  then show ?thesis using hd_filter_upt [OF ne] by blast
qed

lemma stacked_imbalance_last:
  assumes "qualifies (map snd imb) rng i"
  shows "\<exists>j. qualifies (map snd imb) rng j \<and> (\<forall>k>j. \<not> qualifies (map snd imb) rng k) \<and>
             stacked_imbalance imb rng True = Some (fst (imb ! j))"
proof -
  let ?f = "filter (qualifies (map snd imb) rng) [0..<length imb]"
  have "i \<in> set ?f" using assms by (simp add: qualifies_def)
  then have ne: "?f \<noteq> []" by (metis empty_iff list.set(1))
  have "stacked_imbalance imb rng True = Some (fst (imb ! hd (rev ?f)))"
    using ne stacked_idx_qualifies [of rng "map snd imb"]
    by (simp add: stacked_imbalance_def Let_def)
  moreover have "\<not> qualifies (map snd imb) rng k" if "hd (rev ?f) < k" for k
  proof (cases "k < length imb")
    case True
    then show ?thesis using last_filter_upt [OF ne] that by blast
  next
    case False
    then show ?thesis by (simp add: qualifies_def)
  qed
  ultimately show ?thesis using last_filter_upt [OF ne] by blast
qed

text \<open>
  C2. A position qualifies iff the run of consecutive true values ending at it has
  length at least the range. For every imbalance table (rows in ascending price order)
  and every integer range, the bid-direction scan returns the price of the first
  qualifying position, the ask-direction scan returns the price of the last qualifying
  position, and either returns no value (NaN, here \<open>None\<close>) exactly when no position
  qualifies.
\<close>

theorem stacked_imbalance_scan:
  fixes df :: imbalances_df
  shows
    "(stacked_imbalance_bid df rng = None) =
       (\<forall>i. \<not> qualifies (map (\<lambda>r. bid_imbalance (snd r)) df) rng i) \<and>
     (stacked_imbalance_ask df rng = None) =
       (\<forall>i. \<not> qualifies (map (\<lambda>r. ask_imbalance (snd r)) df) rng i) \<and>
     (\<forall>i. qualifies (map (\<lambda>r. bid_imbalance (snd r)) df) rng i \<longrightarrow>
        (\<exists>j. qualifies (map (\<lambda>r. bid_imbalance (snd r)) df) rng j \<and>
             (\<forall>k<j. \<not> qualifies (map (\<lambda>r. bid_imbalance (snd r)) df) rng k) \<and>
             stacked_imbalance_bid df rng = Some (fst (df ! j)))) \<and>
     (\<forall>i. qualifies (map (\<lambda>r. ask_imbalance (snd r)) df) rng i \<longrightarrow>
        (\<exists>j. qualifies (map (\<lambda>r. ask_imbalance (snd r)) df) rng j \<and>
             (\<forall>k>j. \<not> qualifies (map (\<lambda>r. ask_imbalance (snd r)) df) rng k) \<and>
             stacked_imbalance_ask df rng = Some (fst (df ! j))))"
proof -
  let ?b = "map (\<lambda>r. (fst r, bid_imbalance (snd r))) df"
  let ?a = "map (\<lambda>r. (fst r, ask_imbalance (snd r))) df"
  have sb: "map snd ?b = map (\<lambda>r. bid_imbalance (snd r)) df"
    and sa: "map snd ?a = map (\<lambda>r. ask_imbalance (snd r)) df"
    by simp_all
  have fb: "fst (?b ! j) = fst (df ! j)" if "qualifies (map snd ?b) rng j" for j
    using that by (simp add: qualifies_def)
  have fa: "fst (?a ! j) = fst (df ! j)" if "qualifies (map snd ?a) rng j" for j
    using that by (simp add: qualifies_def)
  have n1: "(stacked_imbalance_bid df rng = None) =
      (\<forall>i. \<not> qualifies (map (\<lambda>r. bid_imbalance (snd r)) df) rng i)"
    unfolding stacked_imbalance_bid_def stacked_imbalance_None sb ..
  have n2: "(stacked_imbalance_ask df rng = None) =
      (\<forall>i. \<not> qualifies (map (\<lambda>r. ask_imbalance (snd r)) df) rng i)"
    unfolding stacked_imbalance_ask_def stacked_imbalance_None sa ..
  have f1: "\<exists>j. qualifies (map (\<lambda>r. bid_imbalance (snd r)) df) rng j \<and>
             (\<forall>k<j. \<not> qualifies (map (\<lambda>r. bid_imbalance (snd r)) df) rng k) \<and>
             stacked_imbalance_bid df rng = Some (fst (df ! j))"
    if "qualifies (map (\<lambda>r. bid_imbalance (snd r)) df) rng i" for i
  proof -
    from that have "qualifies (map snd ?b) rng i" by (simp only: sb)
    from stacked_imbalance_first [OF this] obtain j where
      j: "qualifies (map snd ?b) rng j" "\<forall>k<j. \<not> qualifies (map snd ?b) rng k"
         "stacked_imbalance ?b rng False = Some (fst (?b ! j))"
      by blast
    from j(3) fb [OF j(1)] have "stacked_imbalance_bid df rng = Some (fst (df ! j))"
      by (simp only: stacked_imbalance_bid_def)
    with j(1,2) show ?thesis unfolding sb by blast
  qed
  have f2: "\<exists>j. qualifies (map (\<lambda>r. ask_imbalance (snd r)) df) rng j \<and>
             (\<forall>k>j. \<not> qualifies (map (\<lambda>r. ask_imbalance (snd r)) df) rng k) \<and>
             stacked_imbalance_ask df rng = Some (fst (df ! j))"
    if "qualifies (map (\<lambda>r. ask_imbalance (snd r)) df) rng i" for i
  proof -
    from that have "qualifies (map snd ?a) rng i" by (simp only: sa)
    from stacked_imbalance_last [OF this] obtain j where
      j: "qualifies (map snd ?a) rng j" "\<forall>k>j. \<not> qualifies (map snd ?a) rng k"
         "stacked_imbalance ?a rng True = Some (fst (?a ! j))"
      by blast
    from j(3) fa [OF j(1)] have "stacked_imbalance_ask df rng = Some (fst (df ! j))"
      by (simp only: stacked_imbalance_ask_def)
    with j(1,2) show ?thesis unfolding sa by blast
  qed
  from n1 n2 f1 f2 show ?thesis by blast
qed

text \<open>
  With range 2 the runs ending at the prices 2, 5 and 6 qualify: the bid scan reports 2,
  the ask scan 6. With range 4 nothing qualifies.
\<close>

theorem stacked_imbalance_scan_witness:
  "qualifies (map (\<lambda>r. bid_imbalance (snd r)) example_imbalances) 2 4 \<and>
   (\<exists>j. qualifies (map (\<lambda>r. bid_imbalance (snd r)) example_imbalances) 2 j \<and>
        (\<forall>k<j. \<not> qualifies (map (\<lambda>r. bid_imbalance (snd r)) example_imbalances) 2 k) \<and>
        stacked_imbalance_bid example_imbalances 2 = Some (fst (example_imbalances ! j))) \<and>
   (\<exists>j. qualifies (map (\<lambda>r. ask_imbalance (snd r)) example_imbalances) 2 j \<and>
        (\<forall>k>j. \<not> qualifies (map (\<lambda>r. ask_imbalance (snd r)) example_imbalances) 2 k) \<and>
        stacked_imbalance_ask example_imbalances 2 = Some (fst (example_imbalances ! j))) \<and>
   stacked_imbalance_bid example_imbalances 2 = Some 2 \<and>
   stacked_imbalance_ask example_imbalances 2 = Some 6 \<and>
   stacked_imbalance_bid example_imbalances 4 = None \<and>
   stacked_imbalance_ask example_imbalances 4 = None"
proof -
  have h1: "qualifies (map (\<lambda>r. bid_imbalance (snd r)) example_imbalances) 2 4"
    by code_simp
  have h2: "qualifies (map (\<lambda>r. ask_imbalance (snd r)) example_imbalances) 2 4"
    by code_simp
  have v: "stacked_imbalance_bid example_imbalances 2 = Some 2"
    "stacked_imbalance_ask example_imbalances 2 = Some 6"
    "stacked_imbalance_bid example_imbalances 4 = None"
    "stacked_imbalance_ask example_imbalances 4 = None"
    by code_simp+
  from stacked_imbalance_scan [of example_imbalances 2] h1 h2 v show ?thesis
    by blast
qed

section \<open>The orchestrator: what one group changes\<close>

lemma od_setitem_absent: "map_of c k = None \<Longrightarrow> od_setitem k v c = c @ [(k, v)]"
  by (induction c) (auto split: if_splits)

lemma first_index_holds:
  assumes "filter (\<lambda>i. bs ! i) [0..<length bs] = index # rest"
  shows "index < length bs \<and> bs ! index"
proof -
  have "index \<in> set (filter (\<lambda>i. bs ! i) [0..<length bs])"
    unfolding assms by simp
  then show ?thesis by simp
qed

lemma first_index_exists:
  assumes "True \<in> set bs"
  shows "\<exists>index rest. filter (\<lambda>i. bs ! i) [0..<length bs] = index # rest"
proof -
  from assms obtain i where "i < length bs" "bs ! i"
    by (auto simp: in_set_conv_nth)
  then have "i \<in> set (filter (\<lambda>i. bs ! i) [0..<length bs])" by simp
  then show ?thesis by (cases "filter (\<lambda>i. bs ! i) [0..<length bs]") auto
qed

lemma cache_hit_cache:
  "cache_hit ib entry s = (r, s') \<Longrightarrow> cached_grouped_trades s' = cached_grouped_trades s"
  by (auto simp: cache_hit_def split: list.splits)

lemma cache_hit_frame:
  assumes "cache_hit ib entry s = (r, s')" and "length ib = length (dataframe s)"
  shows "length (dataframe s') = length (dataframe s) \<and>
         (\<forall>i<length (dataframe s). \<not> ib ! i \<longrightarrow> dataframe s' ! i = dataframe s ! i)"
  using assms by (auto simp: cache_hit_def split: list.splits)

lemma write_group_columns_date:
  "col_date (write_group_columns co imb tg row) = col_date row"
  by (simp add: write_group_columns_def Let_def)

lemma cache_miss_dataframe:
  assumes "cache_miss cfg ib key tg s = (r, s')"
    and "filter (\<lambda>i. ib ! i) [0..<length ib] = index # rest"
  shows "dataframe s' = dataframe s \<or>
         (\<exists>row. col_date row = col_date (dataframe s ! index) \<and>
                dataframe s' = (dataframe s)[index := row])"
proof -
  define co where "co = orderflow cfg"
  define oflow where
    "oflow = trades_to_volumeprofile_with_total_delta_bid_ask (map tr tg) (scale co)"
  define row0 where
    "row0 = (dataframe s ! index)\<lparr>col_trades := Some (map tr tg),
                                   col_orderflow := Some (to_dict oflow)\<rparr>"
  have d0: "col_date row0 = col_date (dataframe s ! index)"
    by (simp add: row0_def)
  show ?thesis
  proof (cases "trades_orderflow_to_imbalances oflow (imbalance_ratio co) (imbalance_volume co)")
    case (Inl e)
    then have "dataframe s' = (dataframe s)[index := row0]"
      using assms(1)
      by (auto simp: cache_miss_def assms(2) Let_def co_def oflow_def row0_def)
    with d0 show ?thesis by blast
  next
    case (Inr imb)
    then have "dataframe s' = ((dataframe s)[index := row0])
        [index := write_group_columns co imb tg (((dataframe s)[index := row0]) ! index)]"
      using assms(1)
      by (auto simp: cache_miss_def assms(2) Let_def co_def oflow_def row0_def)
    then have e: "dataframe s' = (dataframe s)
        [index := write_group_columns co imb tg (((dataframe s)[index := row0]) ! index)]"
      by simp
    show ?thesis
    proof (cases "index < length (dataframe s)")
      case True
      then have "col_date (write_group_columns co imb tg (((dataframe s)[index := row0]) ! index))
          = col_date (dataframe s ! index)"
        by (simp add: write_group_columns_date d0)
      with e show ?thesis by blast
    next
      case False
      with e have "dataframe s' = dataframe s"
        by (simp add: list_update_beyond not_less)
      then show ?thesis ..
    qed
  qed
qed

lemma cache_miss_frame:
  assumes "cache_miss cfg ib key tg s = (r, s')" and "length ib = length (dataframe s)"
  shows "length (dataframe s') = length (dataframe s) \<and>
         (\<forall>i<length (dataframe s). \<not> ib ! i \<longrightarrow> dataframe s' ! i = dataframe s ! i)"
proof (cases "filter (\<lambda>i. ib ! i) [0..<length ib]")
  case Nil
  then show ?thesis using assms by (simp add: cache_miss_def)
next
  case (Cons index rest)
  from first_index_holds [OF Cons] have ix: "index < length ib" "ib ! index" by simp_all
  from cache_miss_dataframe [OF assms(1) Cons]
  have "dataframe s' = dataframe s \<or> (\<exists>row. dataframe s' = (dataframe s)[index := row])"
    by blast
  then show ?thesis
  proof
    assume "dataframe s' = dataframe s"
    then show ?thesis by simp
  next
    assume "\<exists>row. dataframe s' = (dataframe s)[index := row]"
    then obtain row where row: "dataframe s' = (dataframe s)[index := row]" ..
    have "dataframe s' ! i = dataframe s ! i" if "\<not> ib ! i" for i
    proof -
      from that ix have "index \<noteq> i" by auto
      then show ?thesis by (simp add: row)
    qed
    then show ?thesis by (simp add: row)
  qed
qed

lemma cache_miss_dates:
  assumes "cache_miss cfg ib key tg s = (r, s')"
  shows "map col_date (dataframe s') = map col_date (dataframe s)"
proof (cases "filter (\<lambda>i. ib ! i) [0..<length ib]")
  case Nil
  then show ?thesis using assms by (simp add: cache_miss_def)
next
  case (Cons index rest)
  from cache_miss_dataframe [OF assms Cons] show ?thesis
  proof
    assume "dataframe s' = dataframe s"
    then show ?thesis by simp
  next
    assume "\<exists>row. col_date row = col_date (dataframe s ! index) \<and>
                dataframe s' = (dataframe s)[index := row]"
    then obtain row where row: "col_date row = col_date (dataframe s ! index)"
      "dataframe s' = (dataframe s)[index := row]" by blast
    show ?thesis
    proof (cases "index < length (dataframe s)")
      case True
      then have "(map col_date (dataframe s))[index := col_date row] = map col_date (dataframe s)"
        by (simp add: row(1) list_update_same_conv)
      then show ?thesis by (simp add: row(2) map_update)
    next
      case False
      then have "(dataframe s)[index := row] = dataframe s"
        by (simp add: list_update_beyond not_less)
      then show ?thesis by (simp only: row(2))
    qed
  qed
qed

lemma filter_by_mask: "map snd (filter fst (zip (map P ys) ys)) = filter P ys"
  by (induction ys) simp_all

lemma store_in_cache_absent:
  assumes "map_of c key = None"
  shows "store_in_cache cfg key entry c = (None, fifo_insert cfg (key, entry) c)"
  by (simp add: store_in_cache_def Let_def od_setitem_absent [OF assms] live_mode_def
        fifo_insert_def od_popitem_first_def split: list.splits)

lemma cache_miss_result:
  assumes cm: "cache_miss cfg ib key tg s = (r, s')"
    and rows: "tg \<noteq> []"
    and ix: "filter (\<lambda>i. ib ! i) [0..<length ib] = index # rest"
  shows "r = fst (store_in_cache cfg key (map snd (filter fst (zip ib (dataframe s'))))
                   (cached_grouped_trades s)) \<and>
         cached_grouped_trades s' =
           snd (store_in_cache cfg key (map snd (filter fst (zip ib (dataframe s'))))
                  (cached_grouped_trades s))"
proof -
  define co where "co = orderflow cfg"
  define oflow where
    "oflow = trades_to_volumeprofile_with_total_delta_bid_ask (map tr tg) (scale co)"
  from rows have "map tr tg \<noteq> []" by simp
  from profile_of_trades [OF this] obtain bins where b: "oflow = Binned bins"
    unfolding oflow_def by blast
  define imb where "imb = imbalance_flags bins (imbalance_ratio co) (imbalance_volume co)"
  have det: "trades_orderflow_to_imbalances oflow (imbalance_ratio co) (imbalance_volume co) =
      Inr imb"
    by (simp add: b imbalances_of_binned imb_def)
  show ?thesis
    using cm det
    by (auto simp: cache_miss_def ix Let_def co_def oflow_def)
qed

lemma cache_miss_stored:
  assumes cm: "cache_miss cfg (map (\<lambda>r. d = col_date r) (dataframe s)) key tg s = (r, s')"
    and absent: "map_of (cached_grouped_trades s) key = None"
    and rows: "tg \<noteq> []"
    and match: "True \<in> set (map (\<lambda>r. d = col_date r) (dataframe s))"
  shows "r = None \<and>
         cached_grouped_trades s' =
           fifo_insert cfg (key, filter (\<lambda>r. col_date r = d) (dataframe s'))
             (cached_grouped_trades s)"
proof -
  let ?ib = "map (\<lambda>r. d = col_date r) (dataframe s)"
  from first_index_exists [OF match] obtain index rest where
    ix: "filter (\<lambda>i. ?ib ! i) [0..<length ?ib] = index # rest" by blast
  from cache_miss_result [OF cm rows ix]
  have 1: "r = None \<and> cached_grouped_trades s' =
      fifo_insert cfg (key, map snd (filter fst (zip ?ib (dataframe s'))))
        (cached_grouped_trades s)"
    by (simp add: store_in_cache_absent [OF absent])
  have "map col_date (dataframe s') = map col_date (dataframe s)"
    by (rule cache_miss_dates [OF cm])
  then have "map (\<lambda>x. d = x) (map col_date (dataframe s')) =
      map (\<lambda>x. d = x) (map col_date (dataframe s))"
    by simp
  then have "?ib = map (\<lambda>r. d = col_date r) (dataframe s')"
    by (simp add: comp_def)
  then have "map snd (filter fst (zip ?ib (dataframe s'))) =
      filter (\<lambda>r. d = col_date r) (dataframe s')"
    by (simp only: filter_by_mask)
  also have "\<dots> = filter (\<lambda>r. col_date r = d) (dataframe s')"
    by (rule filter_cong) auto
  finally show ?thesis using 1 by simp
qed

lemma cache_miss_no_rows:
  assumes "cache_miss cfg ib key [] s = (r, s')"
  shows "cached_grouped_trades s' = cached_grouped_trades s \<and> r \<noteq> None"
  using assms
  by (auto simp: cache_miss_def Let_def trades_to_volumeprofile_with_total_delta_bid_ask_def
        trades_orderflow_to_imbalances_def split: list.splits)

lemma process_group_unmatched:
  assumes "fst g \<notin> col_date ` set (dataframe s)"
  shows "process_group ex cfg ks g s = (None, s\<lparr>logged := logged s @ [Debug_no_candles (fst g)]\<rparr>)"
proof -
  have "True \<notin> set (map (\<lambda>r. fst g = col_date r) (dataframe s))"
    using assms by auto
  then show ?thesis by (simp add: process_group_def Let_def)
qed

lemma process_group_matched:
  assumes "fst g \<in> col_date ` set (dataframe s)"
  shows "process_group ex cfg ks g s =
    (case timeframe_to_next_date ex (timeframe cfg) (fst g) of
       Inl e \<Rightarrow> (Some e, s)
     | Inr candle_next \<Rightarrow>
        (let s1 = (if candle_next \<notin> set ks
                   then s\<lparr>logged := logged s @
                            [Warning_unfinished (fst g) (length (snd g)) candle_next]\<rparr>
                   else s)
         in case map_of (cached_grouped_trades s1) (fst g, candle_next) of
              Some cache_entry \<Rightarrow>
                cache_hit (map (\<lambda>r. fst g = col_date r) (dataframe s)) cache_entry s1
            | None \<Rightarrow>
                cache_miss cfg (map (\<lambda>r. fst g = col_date r) (dataframe s))
                  (fst g, candle_next) (snd g) s1))"
proof -
  have "True \<in> set (map (\<lambda>r. fst g = col_date r) (dataframe s))"
    using assms by auto
  then show ?thesis by (simp add: process_group_def Let_def)
qed

lemma process_group_cache_exact:
  "cached_grouped_trades (snd (process_group ex cfg ks g s)) =
     (if fst g \<in> col_date ` set (dataframe s) \<and> snd g \<noteq> [] then
        (case timeframe_to_next_date ex (timeframe cfg) (fst g) of
           Inl e \<Rightarrow> cached_grouped_trades s
         | Inr n \<Rightarrow>
            (case map_of (cached_grouped_trades s) (fst g, n) of
               Some entry \<Rightarrow> cached_grouped_trades s
             | None \<Rightarrow>
                fifo_insert cfg
                  ((fst g, n),
                   filter (\<lambda>r. col_date r = fst g)
                     (dataframe (snd (process_group ex cfg ks g s))))
                  (cached_grouped_trades s)))
      else cached_grouped_trades s)"
proof (cases "fst g \<in> col_date ` set (dataframe s)")
  case False
  then show ?thesis by (simp add: process_group_unmatched)
next
  case True
  note pg = process_group_matched [OF True, of ex cfg ks]
  have match: "True \<in> set (map (\<lambda>r. fst g = col_date r) (dataframe s))"
    using True by auto
  show ?thesis
  proof (cases "timeframe_to_next_date ex (timeframe cfg) (fst g)")
    case (Inl e)
    then show ?thesis by (simp add: pg)
  next
    case (Inr n)
    define s1 where "s1 = (if n \<notin> set ks
                        then s\<lparr>logged := logged s @
                                 [Warning_unfinished (fst g) (length (snd g)) n]\<rparr>
                        else s)"
    have c1: "cached_grouped_trades s1 = cached_grouped_trades s"
      and d1: "dataframe s1 = dataframe s"
      by (simp_all add: s1_def)
    have pg1: "process_group ex cfg ks g s =
        (case map_of (cached_grouped_trades s) (fst g, n) of
           Some cache_entry \<Rightarrow>
             cache_hit (map (\<lambda>r. fst g = col_date r) (dataframe s)) cache_entry s1
         | None \<Rightarrow>
             cache_miss cfg (map (\<lambda>r. fst g = col_date r) (dataframe s)) (fst g, n) (snd g) s1)"
      unfolding pg Inr s1_def by (simp add: Let_def)
    show ?thesis
    proof (cases "map_of (cached_grouped_trades s) (fst g, n)")
      case (Some entry)
      obtain r s' where h: "cache_hit (map (\<lambda>r. fst g = col_date r) (dataframe s)) entry s1 =
          (r, s')"
        by (cases "cache_hit (map (\<lambda>r. fst g = col_date r) (dataframe s)) entry s1")
      from cache_hit_cache [OF h] show ?thesis
        by (simp add: pg1 Some Inr h c1)
    next
      case None
      obtain r s' where m: "cache_miss cfg (map (\<lambda>r. fst g = col_date r) (dataframe s))
          (fst g, n) (snd g) s1 = (r, s')"
        by (cases "cache_miss cfg (map (\<lambda>r. fst g = col_date r) (dataframe s))
          (fst g, n) (snd g) s1")
      have ps: "process_group ex cfg ks g s = (r, s')"
        by (simp add: pg1 None m)
      show ?thesis
      proof (cases "snd g = []")
        case True
        with m have "cache_miss cfg (map (\<lambda>r. fst g = col_date r) (dataframe s))
          (fst g, n) [] s1 = (r, s')" by simp
        from cache_miss_no_rows [OF this] show ?thesis
          by (simp add: ps True c1)
      next
        case False
        from m have m': "cache_miss cfg (map (\<lambda>r. fst g = col_date r) (dataframe s1))
          (fst g, n) (snd g) s1 = (r, s')" by (simp add: d1)
        have a: "map_of (cached_grouped_trades s1) (fst g, n) = None"
          by (simp add: c1 None)
        have t: "True \<in> set (map (\<lambda>r. fst g = col_date r) (dataframe s1))"
          using match by (simp add: d1)
        from cache_miss_stored [OF m' a False t]
        show ?thesis using \<open>fst g \<in> col_date ` set (dataframe s)\<close>
          by (simp add: ps False Inr None c1)
      qed
    qed
  qed
qed

lemma process_group_stores:
  assumes "fst g \<in> col_date ` set (dataframe s)" and "snd g \<noteq> []"
    and "timeframe_to_next_date ex (timeframe cfg) (fst g) = Inr n"
    and "map_of (cached_grouped_trades s) (fst g, n) = None"
  shows "fst (process_group ex cfg ks g s) = None"
proof -
  define s1 where "s1 = (if n \<notin> set ks
                      then s\<lparr>logged := logged s @
                               [Warning_unfinished (fst g) (length (snd g)) n]\<rparr>
                      else s)"
  have c1: "cached_grouped_trades s1 = cached_grouped_trades s"
    and d1: "dataframe s1 = dataframe s"
    by (simp_all add: s1_def)
  obtain r s' where m: "cache_miss cfg (map (\<lambda>r. fst g = col_date r) (dataframe s1))
      (fst g, n) (snd g) s1 = (r, s')"
    by (cases "cache_miss cfg (map (\<lambda>r. fst g = col_date r) (dataframe s1))
      (fst g, n) (snd g) s1")
  have ps: "process_group ex cfg ks g s = (r, s')"
    using m unfolding process_group_matched [OF assms(1)] assms(3) s1_def
    by (simp add: Let_def assms(4) split: if_splits)
  have a: "map_of (cached_grouped_trades s1) (fst g, n) = None"
    by (simp add: c1 assms(4))
  have t: "True \<in> set (map (\<lambda>r. fst g = col_date r) (dataframe s1))"
    using assms(1) by (auto simp: d1)
  from cache_miss_stored [OF m a assms(2) t] show ?thesis by (simp add: ps)
qed

lemma process_group_frame:
  assumes "process_group ex cfg ks g s = (r, s')"
  shows "length (dataframe s') = length (dataframe s) \<and>
         (\<forall>i<length (dataframe s). col_date (dataframe s ! i) \<noteq> fst g \<longrightarrow>
              dataframe s' ! i = dataframe s ! i)"
proof -
  let ?ib = "map (\<lambda>r. fst g = col_date r) (dataframe s)"
  let ?w = "\<lambda>n. s\<lparr>logged := logged s @ [Warning_unfinished (fst g) (length (snd g)) n]\<rparr>"
  have len: "length ?ib = length (dataframe s)" by simp
  have nth: "\<not> ?ib ! i" if "i < length (dataframe s)" "col_date (dataframe s ! i) \<noteq> fst g" for i
    using that by auto
  have hit: "length (dataframe s') = length (dataframe s1) \<and>
         (\<forall>i<length (dataframe s1). \<not> ?ib ! i \<longrightarrow> dataframe s' ! i = dataframe s1 ! i)"
    if "cache_hit ?ib entry s1 = (r, s')" "dataframe s1 = dataframe s" for entry s1
    using cache_hit_frame [OF that(1)] that(2) by simp
  have miss: "length (dataframe s') = length (dataframe s1) \<and>
         (\<forall>i<length (dataframe s1). \<not> ?ib ! i \<longrightarrow> dataframe s' ! i = dataframe s1 ! i)"
    if "cache_miss cfg ?ib key (snd g) s1 = (r, s')" "dataframe s1 = dataframe s" for key s1
    using cache_miss_frame [OF that(1)] that(2) by simp
  have "length (dataframe s') = length (dataframe s) \<and>
         (\<forall>i<length (dataframe s). \<not> ?ib ! i \<longrightarrow> dataframe s' ! i = dataframe s ! i)"
    using assms hit miss
    by (auto simp: process_group_def Let_def split: if_splits sum.splits option.splits)
  then show ?thesis using nth by blast
qed

lemma process_group_cache:
  assumes "process_group ex cfg ks g s = (r, s')"
  shows "cached_grouped_trades s' = cached_grouped_trades s \<or>
         (\<exists>n v. timeframe_to_next_date ex (timeframe cfg) (fst g) = Inr n \<and>
            map_of (cached_grouped_trades s) (fst g, n) = None \<and> r = None \<and>
            cached_grouped_trades s' =
              (if live_mode cfg \<and>
                  cache_size (orderflow cfg) < int (length (cached_grouped_trades s)) + 1
               then tl (cached_grouped_trades s @ [((fst g, n), v)])
               else cached_grouped_trades s @ [((fst g, n), v)]))"
proof -
  have s': "s' = snd (process_group ex cfg ks g s)" and r: "r = fst (process_group ex cfg ks g s)"
    using assms by simp_all
  show ?thesis
  proof (cases "cached_grouped_trades s' = cached_grouped_trades s")
    case True
    then show ?thesis ..
  next
    case False
    from False process_group_cache_exact [of ex cfg ks g s]
    have m: "fst g \<in> col_date ` set (dataframe s)" "snd g \<noteq> []"
      unfolding s' by (auto split: if_splits)
    from False process_group_cache_exact [of ex cfg ks g s] m
    obtain n where n: "timeframe_to_next_date ex (timeframe cfg) (fst g) = Inr n"
      unfolding s' by (cases "timeframe_to_next_date ex (timeframe cfg) (fst g)") auto
    from False process_group_cache_exact [of ex cfg ks g s] m n
    have a: "map_of (cached_grouped_trades s) (fst g, n) = None"
      unfolding s' by (cases "map_of (cached_grouped_trades s) (fst g, n)") auto
    from process_group_stores [OF m n a, of ks] have "r = None" by (simp add: r)
    moreover from process_group_cache_exact [of ex cfg ks g s] m n a
    have "cached_grouped_trades s' =
        (if live_mode cfg \<and>
            cache_size (orderflow cfg) < int (length (cached_grouped_trades s)) + 1
         then tl (cached_grouped_trades s @
                [((fst g, n), filter (\<lambda>r. col_date r = fst g) (dataframe s'))])
         else cached_grouped_trades s @
                [((fst g, n), filter (\<lambda>r. col_date r = fst g) (dataframe s'))])"
      unfolding s' by (simp add: fifo_insert_def)
    ultimately show ?thesis using n a by blast
  qed
qed

lemma process_group_hit:
  assumes "process_group ex cfg ks g s = (r, s')"
    and "timeframe_to_next_date ex (timeframe cfg) (fst g) = Inr n"
    and "map_of (cached_grouped_trades s) (fst g, n) = Some entry"
  shows "cached_grouped_trades s' = cached_grouped_trades s"
  using process_group_cache [OF assms(1)] assms(2,3) by auto

section \<open>The orchestrator: the loop and the whole call\<close>

lemma run_groups_frame:
  assumes "run_groups ex cfg ks gs s = (r, s')"
  shows "length (dataframe s') = length (dataframe s) \<and>
         (\<forall>i<length (dataframe s). col_date (dataframe s ! i) \<notin> fst ` set gs \<longrightarrow>
              dataframe s' ! i = dataframe s ! i)"
  using assms
proof (induction gs arbitrary: s)
  case Nil
  then show ?case by simp
next
  case (Cons g gs)
  obtain r1 s1 where pg: "process_group ex cfg ks g s = (r1, s1)"
    by (cases "process_group ex cfg ks g s")
  note fr = process_group_frame [OF pg]
  show ?case
  proof (cases r1)
    case (Some e)
    with Cons.prems pg have "s' = s1" by simp
    with fr show ?thesis by simp
  next
    case None
    with Cons.prems pg have "run_groups ex cfg ks gs s1 = (r, s')" by simp
    note ih = Cons.IH [OF this]
    show ?thesis
    proof (intro conjI allI impI)
      show "length (dataframe s') = length (dataframe s)" using ih fr by simp
    next
      fix i assume i: "i < length (dataframe s)"
        and d: "col_date (dataframe s ! i) \<notin> fst ` set (g # gs)"
      then have 1: "dataframe s1 ! i = dataframe s ! i" using fr by simp
      then have "col_date (dataframe s1 ! i) \<notin> fst ` set gs" using d by simp
      then have "dataframe s' ! i = dataframe s1 ! i" using ih i fr by simp
      then show "dataframe s' ! i = dataframe s ! i" using 1 by simp
    qed
  qed
qed

lemma run_groups_no_eviction:
  assumes "run_groups ex cfg ks gs s = (r, s')" and "\<not> live_mode cfg"
  shows "\<exists>new. cached_grouped_trades s' = cached_grouped_trades s @ new"
  using assms(1)
proof (induction gs arbitrary: s)
  case Nil
  then show ?case by simp
next
  case (Cons g gs)
  obtain r1 s1 where pg: "process_group ex cfg ks g s = (r1, s1)"
    by (cases "process_group ex cfg ks g s")
  from process_group_cache [OF pg] assms(2)
  obtain new1 where n1: "cached_grouped_trades s1 = cached_grouped_trades s @ new1"
    by auto
  show ?case
  proof (cases r1)
    case (Some e)
    with Cons.prems pg have "s' = s1" by simp
    with n1 show ?thesis by blast
  next
    case None
    with Cons.prems pg have "run_groups ex cfg ks gs s1 = (r, s')" by simp
    from Cons.IH [OF this] obtain new2 where
      "cached_grouped_trades s' = cached_grouped_trades s1 @ new2" ..
    with n1 have "cached_grouped_trades s' = cached_grouped_trades s @ (new1 @ new2)" by simp
    then show ?thesis ..
  qed
qed

lemma tl_conv_drop1: "tl xs = drop (Suc 0) xs"
  by (simp add: drop_Suc)

lemma process_group_fifo:
  assumes "process_group ex cfg ks g s = (r, s')"
  shows "\<exists>n new. cached_grouped_trades s' = drop n (cached_grouped_trades s @ new) \<and>
           n \<le> length new \<and> length new \<le> 1 \<and>
           length (cached_grouped_trades s) \<le> length (cached_grouped_trades s') \<and>
           (0 < n \<longrightarrow> live_mode cfg \<and>
              cache_size (orderflow cfg) \<le> int (length (cached_grouped_trades s')))"
proof -
  from process_group_cache [OF assms] consider
    (same) "cached_grouped_trades s' = cached_grouped_trades s"
  | (app) n v where "\<not> (live_mode cfg \<and>
        cache_size (orderflow cfg) < int (length (cached_grouped_trades s)) + 1)"
      "cached_grouped_trades s' = cached_grouped_trades s @ [((fst g, n), v)]"
  | (pop) n v where "live_mode cfg"
      "cache_size (orderflow cfg) < int (length (cached_grouped_trades s)) + 1"
      "cached_grouped_trades s' = tl (cached_grouped_trades s @ [((fst g, n), v)])"
    by (auto split: if_splits)
  then show ?thesis
  proof cases
    case same
    then have "cached_grouped_trades s' = drop 0 (cached_grouped_trades s @ []) \<and>
        0 \<le> length ([] :: cache) \<and> length ([] :: cache) \<le> 1 \<and>
        length (cached_grouped_trades s) \<le> length (cached_grouped_trades s') \<and>
        ((0::nat) < 0 \<longrightarrow> live_mode cfg \<and>
              cache_size (orderflow cfg) \<le> int (length (cached_grouped_trades s')))"
      by simp
    then show ?thesis by blast
  next
    case app
    then have "cached_grouped_trades s' = drop 0 (cached_grouped_trades s @ [((fst g, n), v)]) \<and>
        0 \<le> length [((fst g, n), v)] \<and> length [((fst g, n), v)] \<le> 1 \<and>
        length (cached_grouped_trades s) \<le> length (cached_grouped_trades s') \<and>
        ((0::nat) < 0 \<longrightarrow> live_mode cfg \<and>
              cache_size (orderflow cfg) \<le> int (length (cached_grouped_trades s')))"
      by simp
    then show ?thesis by blast
  next
    case pop
    have e: "cached_grouped_trades s' =
        drop (Suc 0) (cached_grouped_trades s @ [((fst g, n), v)])"
      unfolding pop(3) by (rule tl_conv_drop1)
    have l: "length (cached_grouped_trades s') = length (cached_grouped_trades s)"
      unfolding pop(3) by simp
    have a: "Suc 0 \<le> length [((fst g, n), v)]" "length [((fst g, n), v)] \<le> 1"
      by simp_all
    have b: "length (cached_grouped_trades s) \<le> length (cached_grouped_trades s')"
      by (simp add: l)
    have c: "cache_size (orderflow cfg) \<le> int (length (cached_grouped_trades s'))"
      using pop(2) by (simp add: l)
    from e a b c pop(1) show ?thesis by blast
  qed
qed

lemma run_groups_fifo:
  assumes "run_groups ex cfg ks gs s = (r, s')"
  shows "\<exists>n new. cached_grouped_trades s' = drop n (cached_grouped_trades s @ new) \<and>
           n \<le> length new \<and>
           length (cached_grouped_trades s) \<le> length (cached_grouped_trades s') \<and>
           (0 < n \<longrightarrow> live_mode cfg \<and>
              cache_size (orderflow cfg) \<le> int (length (cached_grouped_trades s')))"
  using assms
proof (induction gs arbitrary: s)
  case Nil
  then have "cached_grouped_trades s' = drop 0 (cached_grouped_trades s @ [])" by simp
  moreover have "(0::nat) \<le> length ([] :: cache)" by simp
  moreover have "length (cached_grouped_trades s) \<le> length (cached_grouped_trades s')"
    using Nil by simp
  ultimately show ?case by blast
next
  case (Cons g gs)
  obtain r1 s1 where pg: "process_group ex cfg ks g s = (r1, s1)"
    by (cases "process_group ex cfg ks g s")
  from process_group_fifo [OF pg] obtain n1 new1 where
    1: "cached_grouped_trades s1 = drop n1 (cached_grouped_trades s @ new1)"
       "n1 \<le> length new1"
       "length (cached_grouped_trades s) \<le> length (cached_grouped_trades s1)"
       "0 < n1 \<longrightarrow> live_mode cfg \<and>
          cache_size (orderflow cfg) \<le> int (length (cached_grouped_trades s1))"
    by blast
  show ?case
  proof (cases r1)
    case (Some e)
    with Cons.prems pg have "s' = s1" by simp
    with 1 show ?thesis by blast
  next
    case None
    with Cons.prems pg have "run_groups ex cfg ks gs s1 = (r, s')" by simp
    from Cons.IH [OF this] obtain n2 new2 where
      2: "cached_grouped_trades s' = drop n2 (cached_grouped_trades s1 @ new2)"
         "n2 \<le> length new2"
         "length (cached_grouped_trades s1) \<le> length (cached_grouped_trades s')"
         "0 < n2 \<longrightarrow> live_mode cfg \<and>
            cache_size (orderflow cfg) \<le> int (length (cached_grouped_trades s'))"
      by blast
    have "drop n1 (cached_grouped_trades s @ new1) @ new2 =
          drop n1 (cached_grouped_trades s @ new1 @ new2)"
      using 1(2) by simp
    then have a: "cached_grouped_trades s' =
        drop (n2 + n1) (cached_grouped_trades s @ (new1 @ new2))"
      unfolding 2(1) 1(1) by (simp only: drop_drop append_assoc)
    have b: "n2 + n1 \<le> length (new1 @ new2)" using 1(2) 2(2) by simp
    have c: "length (cached_grouped_trades s) \<le> length (cached_grouped_trades s')"
      using 1(3) 2(3) by simp
    have d: "0 < n2 + n1 \<longrightarrow> live_mode cfg \<and>
          cache_size (orderflow cfg) \<le> int (length (cached_grouped_trades s'))"
      using 1(4) 2(3,4) by auto
    from a b c d show ?thesis by blast
  qed
qed

lemma run_groups_abort:
  assumes "run_groups ex cfg ks pre s = (None, s1)"
    and "process_group ex cfg ks g s1 = (Some e, s2)"
  shows "run_groups ex cfg ks (pre @ g # post) s = (Some e, s2)"
  using assms
proof (induction pre arbitrary: s)
  case Nil
  then show ?case by simp
next
  case (Cons p pre)
  obtain r0 s0 where pg: "process_group ex cfg ks p s = (r0, s0)"
    by (cases "process_group ex cfg ks p s")
  show ?case
  proof (cases r0)
    case (Some e0)
    with Cons.prems(1) pg show ?thesis by simp
  next
    case None
    with Cons.prems(1) pg have "run_groups ex cfg ks pre s0 = (None, s1)" by simp
    from Cons.IH [OF this Cons.prems(2)] pg None show ?thesis by simp
  qed
qed

lemma try_block_state:
  assumes "try_block ex cfg ts s = (r, s')"
  shows "(\<exists>r0 s0 gs. dataframe s' = dataframe s0 \<and>
            cached_grouped_trades s' = cached_grouped_trades s0 \<and>
            trade_groups ex cfg ts (dataframe s) = Inr gs \<and>
            run_groups ex cfg (map fst gs) gs s = (r0, s0)) \<or>
         (s' = s \<and> (\<exists>e. trade_groups ex cfg ts (dataframe s) = Inl e))"
proof (cases "trade_groups ex cfg ts (dataframe s)")
  case (Inl e)
  then show ?thesis using assms by (simp add: try_block_def)
next
  case (Inr gs)
  obtain r0 s0 where rg: "run_groups ex cfg (map fst gs) gs s = (r0, s0)"
    by (cases "run_groups ex cfg (map fst gs) gs s")
  have "dataframe s' = dataframe s0 \<and> cached_grouped_trades s' = cached_grouped_trades s0"
    using assms Inr rg by (cases r0) (auto simp: try_block_def)
  then show ?thesis using Inr rg by blast
qed

lemma start_state_sel [simp]:
  "dataframe (start_state df c) = init_dataframe_with_trades_columns df"
  "cached_grouped_trades (start_state df c) = c"
  "logged (start_state df c) = []"
  by (simp_all add: start_state_def)

lemma populate_final:
  "\<exists>r s. dataframe (snd (populate_dataframe_with_trades ex c cfg df trades)) = dataframe s \<and>
     cached_grouped_trades (snd (populate_dataframe_with_trades ex c cfg df trades)) =
       cached_grouped_trades s \<and>
     ((\<exists>gs. trade_groups ex cfg (the trades) (init_dataframe_with_trades_columns df) = Inr gs \<and>
         trades \<noteq> None \<and>
         run_groups ex cfg (map fst gs) gs
           (start_state df c) = (r, s)) \<or>
      (dataframe s = init_dataframe_with_trades_columns df \<and> cached_grouped_trades s = c))"
proof -
  let ?s0 = "start_state df c"
  show ?thesis
  proof (cases "trades = None \<or> trades = Some []")
    case True
    then have "dataframe (snd (populate_dataframe_with_trades ex c cfg df trades)) =
        dataframe ?s0 \<and>
      cached_grouped_trades (snd (populate_dataframe_with_trades ex c cfg df trades)) =
        cached_grouped_trades ?s0"
      by (auto simp: populate_dataframe_with_trades_def Let_def)
    moreover have "dataframe ?s0 = init_dataframe_with_trades_columns df \<and>
      cached_grouped_trades ?s0 = c" by simp
    ultimately show ?thesis by blast
  next
    case False
    then obtain ts where ts: "trades = Some ts" "ts \<noteq> []" by auto
    obtain r1 s1 where tb: "try_block ex cfg ts ?s0 = (r1, s1)"
      by (cases "try_block ex cfg ts ?s0")
    have fin: "dataframe (snd (populate_dataframe_with_trades ex c cfg df trades)) =
        dataframe s1 \<and>
      cached_grouped_trades (snd (populate_dataframe_with_trades ex c cfg df trades)) =
        cached_grouped_trades s1"
      using ts tb by (cases r1) (simp_all add: populate_dataframe_with_trades_def Let_def)
    from try_block_state [OF tb] show ?thesis
    proof
      assume "\<exists>r0 s0 gs. dataframe s1 = dataframe s0 \<and>
            cached_grouped_trades s1 = cached_grouped_trades s0 \<and>
            trade_groups ex cfg ts (dataframe ?s0) = Inr gs \<and>
            run_groups ex cfg (map fst gs) gs ?s0 = (r0, s0)"
      then obtain r0 s0 gs where
        "dataframe s1 = dataframe s0" "cached_grouped_trades s1 = cached_grouped_trades s0"
        "trade_groups ex cfg ts (init_dataframe_with_trades_columns df) = Inr gs"
        "run_groups ex cfg (map fst gs) gs ?s0 = (r0, s0)"
        by auto
      with fin ts show ?thesis by auto
    next
      assume "s1 = ?s0 \<and> (\<exists>e. trade_groups ex cfg ts (dataframe ?s0) = Inl e)"
      then have "dataframe s1 = init_dataframe_with_trades_columns df \<and>
          cached_grouped_trades s1 = c" by simp
      with fin show ?thesis by metis
    qed
  qed
qed

text \<open>
  C3. The cache is evicted from only in live or simulated-live mode. The cache a group
  leaves behind is given exactly: it is the cache as it was when no row matches, when
  the resolver raises, on a hit (the entry keeps its place) and for a group without
  rows; on a miss the group is processed without a raise and its entry, the rows of its
  date, is inserted as the newest, after which, in live or simulated-live mode and with
  more than \<open>cache_size\<close> entries, exactly the head, the oldest-inserted entry, is
  removed, and nothing is removed in any other mode. Storing under an absent key is this
  insertion. Over a whole call in any other mode the cache passed in is a prefix of the
  cache left behind; in every mode the cache left behind is the cache passed in plus
  new entries, minus a number of oldest entries, and entries were removed only in live
  or simulated-live mode with the cache at \<open>cache_size\<close> or more.
\<close>

theorem cache_eviction_policy:
  "cached_grouped_trades (snd (process_group ex cfg ks g s)) =
     (if fst g \<in> col_date ` set (dataframe s) \<and> snd g \<noteq> [] then
        (case timeframe_to_next_date ex (timeframe cfg) (fst g) of
           Inl e \<Rightarrow> cached_grouped_trades s
         | Inr n \<Rightarrow>
            (case map_of (cached_grouped_trades s) (fst g, n) of
               Some entry \<Rightarrow> cached_grouped_trades s
             | None \<Rightarrow>
                fifo_insert cfg
                  ((fst g, n),
                   filter (\<lambda>r. col_date r = fst g)
                     (dataframe (snd (process_group ex cfg ks g s))))
                  (cached_grouped_trades s)))
      else cached_grouped_trades s) \<and>
   (fst g \<in> col_date ` set (dataframe s) \<and> snd g \<noteq> [] \<and>
    timeframe_to_next_date ex (timeframe cfg) (fst g) = Inr n \<and>
    map_of (cached_grouped_trades s) (fst g, n) = None \<longrightarrow>
      fst (process_group ex cfg ks g s) = None) \<and>
   (map_of c key = None \<longrightarrow>
      store_in_cache cfg key entry c = (None, fifo_insert cfg (key, entry) c)) \<and>
   (\<not> live_mode cfg \<longrightarrow>
      (\<exists>new. cached_grouped_trades (snd (populate_dataframe_with_trades ex c cfg df trades)) =
          c @ new)) \<and>
   (\<exists>n new. cached_grouped_trades (snd (populate_dataframe_with_trades ex c cfg df trades)) =
          drop n (c @ new) \<and> n \<le> length new \<and>
      (0 < n \<longrightarrow> live_mode cfg \<and> cache_size (orderflow cfg) \<le>
          int (length (cached_grouped_trades
                 (snd (populate_dataframe_with_trades ex c cfg df trades))))))"
proof (intro conjI impI)
  show "cached_grouped_trades (snd (process_group ex cfg ks g s)) =
     (if fst g \<in> col_date ` set (dataframe s) \<and> snd g \<noteq> [] then
        (case timeframe_to_next_date ex (timeframe cfg) (fst g) of
           Inl e \<Rightarrow> cached_grouped_trades s
         | Inr n \<Rightarrow>
            (case map_of (cached_grouped_trades s) (fst g, n) of
               Some entry \<Rightarrow> cached_grouped_trades s
             | None \<Rightarrow>
                fifo_insert cfg
                  ((fst g, n),
                   filter (\<lambda>r. col_date r = fst g)
                     (dataframe (snd (process_group ex cfg ks g s))))
                  (cached_grouped_trades s)))
      else cached_grouped_trades s)"
    by (rule process_group_cache_exact)
next
  assume "fst g \<in> col_date ` set (dataframe s) \<and> snd g \<noteq> [] \<and>
    timeframe_to_next_date ex (timeframe cfg) (fst g) = Inr n \<and>
    map_of (cached_grouped_trades s) (fst g, n) = None"
  then show "fst (process_group ex cfg ks g s) = None"
    using process_group_stores by blast
next
  assume "map_of c key = None"
  then show "store_in_cache cfg key entry c = (None, fifo_insert cfg (key, entry) c)"
    by (rule store_in_cache_absent)
next
  let ?p = "populate_dataframe_with_trades ex c cfg df trades"
  let ?s0 = "start_state df c"
  from populate_final [of ex c cfg df trades] obtain r1 s1 where
    fin: "cached_grouped_trades (snd ?p) = cached_grouped_trades s1"
    and alt: "(\<exists>gs. run_groups ex cfg (map fst gs) gs ?s0 = (r1, s1)) \<or>
              cached_grouped_trades s1 = c"
    by blast
  {
    assume nl: "\<not> live_mode cfg"
    from alt show "\<exists>new. cached_grouped_trades (snd ?p) = c @ new"
    proof
      assume "\<exists>gs. run_groups ex cfg (map fst gs) gs ?s0 = (r1, s1)"
      then obtain gs where "run_groups ex cfg (map fst gs) gs ?s0 = (r1, s1)" ..
      from run_groups_no_eviction [OF this nl] fin show ?thesis by simp
    next
      assume "cached_grouped_trades s1 = c"
      with fin have "cached_grouped_trades (snd ?p) = c @ []" by simp
      then show ?thesis ..
    qed
  }
  from alt show "\<exists>n new. cached_grouped_trades (snd ?p) = drop n (c @ new) \<and> n \<le> length new \<and>
      (0 < n \<longrightarrow> live_mode cfg \<and> cache_size (orderflow cfg) \<le>
          int (length (cached_grouped_trades (snd ?p))))"
  proof
    assume "\<exists>gs. run_groups ex cfg (map fst gs) gs ?s0 = (r1, s1)"
    then obtain gs where "run_groups ex cfg (map fst gs) gs ?s0 = (r1, s1)" ..
    from run_groups_fifo [OF this] show ?thesis unfolding fin by auto
  next
    assume "cached_grouped_trades s1 = c"
    with fin have "cached_grouped_trades (snd ?p) = drop 0 (c @ [])" by simp
    moreover have "(0::nat) \<le> length ([] :: cache)" by simp
    ultimately show ?thesis by blast
  qed
qed

text \<open>
  A cache of two entries and \<open>cache_size = 2\<close>: in live mode the example group's entry
  goes in last and the oldest entry alone is removed, in backtesting all three stay.
  The example call with one older entry and \<open>cache_size = 1\<close> likewise.
\<close>

theorem cache_eviction_policy_witness:
  "live_mode (example_config (Some LIVE) 2) \<and>
   fst example_group \<in> col_date ` set (dataframe (start_state [blank_candle 36000000]
       two_entry_cache)) \<and>
   snd example_group \<noteq> [] \<and>
   timeframe_to_next_date minute_exchange (timeframe (example_config (Some LIVE) 2))
       (fst example_group) = Inr 36060000 \<and>
   map_of two_entry_cache (fst example_group, 36060000) = None \<and>
   fst (process_group minute_exchange (example_config (Some LIVE) 2) [36000000] example_group
          (start_state [blank_candle 36000000] two_entry_cache)) = None \<and>
   map fst (cached_grouped_trades (snd (process_group minute_exchange
          (example_config (Some LIVE) 2) [36000000] example_group
          (start_state [blank_candle 36000000] two_entry_cache)))) =
     [(60000, 120000), (36000000, 36060000)] \<and>
   map fst (cached_grouped_trades (snd (process_group minute_exchange
          (example_config (Some BACKTEST) 2) [36000000] example_group
          (start_state [blank_candle 36000000] two_entry_cache)))) =
     [(0, 60000), (60000, 120000), (36000000, 36060000)] \<and>
   \<not> live_mode (example_config (Some BACKTEST) 1) \<and>
   (\<exists>new. cached_grouped_trades (snd (populate_dataframe_with_trades minute_exchange old_cache
        (example_config (Some BACKTEST) 1) [blank_candle 36000000] (Some example_trades))) =
      old_cache @ new) \<and>
   map fst (cached_grouped_trades (snd (populate_dataframe_with_trades minute_exchange old_cache
        (example_config (Some LIVE) 1) [blank_candle 36000000] (Some example_trades)))) =
     [(36000000, 36060000)]"
proof -
  have l: "live_mode (example_config (Some LIVE) 2)"
    by code_simp
  have m: "fst example_group \<in> col_date ` set (dataframe (start_state [blank_candle 36000000]
       two_entry_cache))"
    by (simp add: example_group_def init_dataframe_with_trades_columns_def init_columns_def
          blank_candle_def)
  have ne: "snd example_group \<noteq> []"
    by (simp add: example_group_def example_trades_def)
  have nx: "timeframe_to_next_date minute_exchange (timeframe (example_config (Some LIVE) 2))
       (fst example_group) = Inr 36060000"
    by (simp add: minute_exchange_def example_group_def)
  have ab: "map_of two_entry_cache (fst example_group, 36060000) = None"
    by (simp add: two_entry_cache_def example_group_def)
  have ab': "map_of (cached_grouped_trades (start_state [blank_candle 36000000] two_entry_cache))
      (fst example_group, 36060000) = None"
    using ab by simp
  have v1: "map fst (cached_grouped_trades (snd (process_group minute_exchange
          (example_config (Some LIVE) 2) [36000000] example_group
          (start_state [blank_candle 36000000] two_entry_cache)))) =
     [(60000, 120000), (36000000, 36060000)]"
    by code_simp
  have v2: "map fst (cached_grouped_trades (snd (process_group minute_exchange
          (example_config (Some BACKTEST) 2) [36000000] example_group
          (start_state [blank_candle 36000000] two_entry_cache)))) =
     [(0, 60000), (60000, 120000), (36000000, 36060000)]"
    by code_simp
  have h: "\<not> live_mode (example_config (Some BACKTEST) 1)"
    by code_simp
  have v3: "map fst (cached_grouped_trades (snd (populate_dataframe_with_trades minute_exchange
        old_cache (example_config (Some LIVE) 1) [blank_candle 36000000]
        (Some example_trades)))) = [(36000000, 36060000)]"
    by code_simp
  from cache_eviction_policy [of minute_exchange "example_config (Some LIVE) 2" "[36000000]"
        example_group "start_state [blank_candle 36000000] two_entry_cache" 36060000]
      m ne nx ab'
  have st: "fst (process_group minute_exchange (example_config (Some LIVE) 2) [36000000]
      example_group (start_state [blank_candle 36000000] two_entry_cache)) = None"
    by blast
  from cache_eviction_policy [of minute_exchange "example_config (Some BACKTEST) 1" "[]"
        example_group "start_state [] []" 0 old_cache "(0, 0)" "[]"
        "[blank_candle 36000000]" "Some example_trades"] h
  have ex: "\<exists>new. cached_grouped_trades (snd (populate_dataframe_with_trades minute_exchange
        old_cache (example_config (Some BACKTEST) 1) [blank_candle 36000000]
        (Some example_trades))) = old_cache @ new"
    by blast
  from l m ne nx ab st v1 v2 h ex v3 show ?thesis by blast
qed

lemma run_groups_all_unmatched:
  "\<forall>g \<in> set gs. fst g \<notin> col_date ` set (dataframe s) \<Longrightarrow>
     run_groups ex cfg ks gs s =
       (None, s\<lparr>logged := logged s @ map (\<lambda>g. Debug_no_candles (fst g)) gs\<rparr>)"
proof (induction gs arbitrary: s)
  case Nil
  then show ?case by simp
next
  case (Cons g gs)
  from Cons.prems have g: "fst g \<notin> col_date ` set (dataframe s)" by simp
  let ?s = "s\<lparr>logged := logged s @ [Debug_no_candles (fst g)]\<rparr>"
  from Cons.prems have "\<forall>g' \<in> set gs. fst g' \<notin> col_date ` set (dataframe ?s)" by simp
  from Cons.IH [OF this] show ?case
    by (simp add: process_group_unmatched [OF g])
qed

text \<open>
  C6. A trade group whose interval start matches no row of the interval table is
  skipped: processing it raises nothing, leaves the table and the cache as they are
  (only a debug record is logged), and the loop goes on with the next group; a loop
  all of whose groups match no row ends with the table and the cache as they were.
\<close>

theorem unmatched_group_skipped:
  assumes "fst g \<notin> col_date ` set (dataframe s)"
  shows "process_group ex cfg ks g s =
           (None, s\<lparr>logged := logged s @ [Debug_no_candles (fst g)]\<rparr>) \<and>
         dataframe (snd (process_group ex cfg ks g s)) = dataframe s \<and>
         cached_grouped_trades (snd (process_group ex cfg ks g s)) = cached_grouped_trades s \<and>
         run_groups ex cfg ks (g # gs) s =
           run_groups ex cfg ks gs (s\<lparr>logged := logged s @ [Debug_no_candles (fst g)]\<rparr>) \<and>
         ((\<forall>g' \<in> set gs. fst g' \<notin> col_date ` set (dataframe s)) \<longrightarrow>
            run_groups ex cfg ks (g # gs) s =
              (None, s\<lparr>logged := logged s @ map (\<lambda>g. Debug_no_candles (fst g)) (g # gs)\<rparr>))"
proof -
  have "run_groups ex cfg ks (g # gs) s =
      (None, s\<lparr>logged := logged s @ map (\<lambda>g. Debug_no_candles (fst g)) (g # gs)\<rparr>)"
    if "\<forall>g' \<in> set gs. fst g' \<notin> col_date ` set (dataframe s)"
  proof -
    from that assms have "\<forall>g' \<in> set (g # gs). fst g' \<notin> col_date ` set (dataframe s)"
      by simp
    then show ?thesis by (rule run_groups_all_unmatched)
  qed
  then show ?thesis by (simp add: process_group_unmatched [OF assms])
qed

theorem unmatched_group_skipped_witness:
  "fst example_group \<notin> col_date ` set (dataframe (start_state [blank_candle 0] old_cache)) \<and>
   fst (process_group minute_exchange (example_config (Some LIVE) 1) [36000000] example_group
          (start_state [blank_candle 0] old_cache)) = None \<and>
   dataframe (snd (process_group minute_exchange (example_config (Some LIVE) 1) [36000000]
          example_group (start_state [blank_candle 0] old_cache))) = [blank_candle 0] \<and>
   cached_grouped_trades (snd (process_group minute_exchange (example_config (Some LIVE) 1)
          [36000000] example_group (start_state [blank_candle 0] old_cache))) = old_cache"
proof -
  have h: "fst example_group \<notin> col_date ` set (dataframe (start_state [blank_candle 0] old_cache))"
    by (simp add: example_group_def init_dataframe_with_trades_columns_def init_columns_def
          blank_candle_def)
  have d: "init_dataframe_with_trades_columns [blank_candle 0] = [blank_candle 0]"
    by (simp add: init_dataframe_with_trades_columns_def init_columns_def blank_candle_def)
  from unmatched_group_skipped [OF h, of minute_exchange "example_config (Some LIVE) 1"
      "[36000000]" "[]"] h d
  show ?thesis by simp
qed

lemma populate_nonempty:
  assumes "ts \<noteq> []"
  shows "populate_dataframe_with_trades ex c cfg df (Some ts) =
    (case try_block ex cfg ts (start_state df c) of
       (Some e, s) \<Rightarrow>
         (Inl (DependencyException e), s\<lparr>logged := logged s @ [Exception_logged e]\<rparr>)
     | (None, s) \<Rightarrow> (Inr (dataframe s, cached_grouped_trades s), s))"
  using assms by (simp add: populate_dataframe_with_trades_def Let_def)

text \<open>
  C4. With trades to process, an exception raised while locating, windowing and grouping
  the trades, or while processing a group (after which no later group is processed),
  ends the call: the exception is logged and the call raises one
  \<open>DependencyException\<close> that wraps it. A call that raises returns nothing, and a
  call that returns has raised nothing in the block and returns the table and the cache
  it leaves behind.
\<close>

theorem failure_raises_dependency_exception:
  assumes "ts \<noteq> []"
  shows
    "(\<forall>e. trade_groups ex cfg ts (init_dataframe_with_trades_columns df) = Inl e \<longrightarrow>
        populate_dataframe_with_trades ex c cfg df (Some ts) =
          (Inl (DependencyException e), (start_state df c)\<lparr>logged := [Exception_logged e]\<rparr>)) \<and>
     (\<forall>pre g post s1 s2 e.
        trade_groups ex cfg ts (init_dataframe_with_trades_columns df) = Inr (pre @ g # post) \<and>
        run_groups ex cfg (map fst (pre @ g # post)) pre (start_state df c) = (None, s1) \<and>
        process_group ex cfg (map fst (pre @ g # post)) g s1 = (Some e, s2) \<longrightarrow>
        populate_dataframe_with_trades ex c cfg df (Some ts) =
          (Inl (DependencyException e), s2\<lparr>logged := logged s2 @ [Exception_logged e]\<rparr>)) \<and>
     (\<forall>err. fst (populate_dataframe_with_trades ex c cfg df (Some ts)) = Inl err \<longrightarrow>
        (\<exists>e. err = DependencyException e \<and>
             fst (try_block ex cfg ts (start_state df c)) = Some e \<and>
             logged (snd (populate_dataframe_with_trades ex c cfg df (Some ts))) \<noteq> [] \<and>
             last (logged (snd (populate_dataframe_with_trades ex c cfg df (Some ts)))) =
               Exception_logged e)) \<and>
     (\<forall>res. fst (populate_dataframe_with_trades ex c cfg df (Some ts)) = Inr res \<longrightarrow>
        fst (try_block ex cfg ts (start_state df c)) = None \<and>
        res = (dataframe (snd (populate_dataframe_with_trades ex c cfg df (Some ts))),
               cached_grouped_trades (snd (populate_dataframe_with_trades ex c cfg df (Some ts)))))"
proof (intro conjI allI impI)
  fix e
  assume "trade_groups ex cfg ts (init_dataframe_with_trades_columns df) = Inl e"
  then show "populate_dataframe_with_trades ex c cfg df (Some ts) =
      (Inl (DependencyException e), (start_state df c)\<lparr>logged := [Exception_logged e]\<rparr>)"
    by (simp add: populate_nonempty [OF assms] try_block_def)
next
  fix pre g post s1 s2 e
  assume a: "trade_groups ex cfg ts (init_dataframe_with_trades_columns df) = Inr (pre @ g # post) \<and>
        run_groups ex cfg (map fst (pre @ g # post)) pre (start_state df c) = (None, s1) \<and>
        process_group ex cfg (map fst (pre @ g # post)) g s1 = (Some e, s2)"
  then have r: "run_groups ex cfg (map fst (pre @ g # post)) pre (start_state df c) = (None, s1)"
    and p: "process_group ex cfg (map fst (pre @ g # post)) g s1 = (Some e, s2)"
    by blast+
  have "run_groups ex cfg (map fst (pre @ g # post)) (pre @ g # post) (start_state df c) =
      (Some e, s2)"
    by (rule run_groups_abort [OF r p])
  with a have "try_block ex cfg ts (start_state df c) = (Some e, s2)"
    by (simp add: try_block_def)
  then show "populate_dataframe_with_trades ex c cfg df (Some ts) =
      (Inl (DependencyException e), s2\<lparr>logged := logged s2 @ [Exception_logged e]\<rparr>)"
    by (simp add: populate_nonempty [OF assms])
next
  fix err
  assume a: "fst (populate_dataframe_with_trades ex c cfg df (Some ts)) = Inl err"
  obtain r s where tb: "try_block ex cfg ts (start_state df c) = (r, s)"
    by (cases "try_block ex cfg ts (start_state df c)")
  show "\<exists>e. err = DependencyException e \<and>
             fst (try_block ex cfg ts (start_state df c)) = Some e \<and>
             logged (snd (populate_dataframe_with_trades ex c cfg df (Some ts))) \<noteq> [] \<and>
             last (logged (snd (populate_dataframe_with_trades ex c cfg df (Some ts)))) =
               Exception_logged e"
    using a tb by (cases r) (auto simp: populate_nonempty [OF assms])
next
  fix res
  assume a: "fst (populate_dataframe_with_trades ex c cfg df (Some ts)) = Inr res"
  obtain r s where tb: "try_block ex cfg ts (start_state df c) = (r, s)"
    by (cases "try_block ex cfg ts (start_state df c)")
  from a tb show "fst (try_block ex cfg ts (start_state df c)) = None"
    by (cases r) (auto simp: populate_nonempty [OF assms])
  from a tb show "res = (dataframe (snd (populate_dataframe_with_trades ex c cfg df (Some ts))),
      cached_grouped_trades (snd (populate_dataframe_with_trades ex c cfg df (Some ts))))"
    by (cases r) (auto simp: populate_nonempty [OF assms])
qed

theorem failure_raises_dependency_exception_witness:
  "example_trades \<noteq> [] \<and>
   trade_groups failing_exchange (example_config (Some LIVE) 1) example_trades
     (init_dataframe_with_trades_columns [blank_candle 36000000]) =
     Inl (ResolverError ''timeframe'') \<and>
   fst (populate_dataframe_with_trades failing_exchange [] (example_config (Some LIVE) 1)
          [blank_candle 36000000] (Some example_trades)) =
     Inl (DependencyException (ResolverError ''timeframe'')) \<and>
   logged (snd (populate_dataframe_with_trades failing_exchange [] (example_config (Some LIVE) 1)
          [blank_candle 36000000] (Some example_trades))) =
     [Exception_logged (ResolverError ''timeframe'')] \<and>
   fst (process_group minute_exchange (example_config (Some LIVE) 1) [36000000] example_group
          (start_state [blank_candle 36000000] broken_cache)) = Some IndexError \<and>
   fst (populate_dataframe_with_trades minute_exchange broken_cache (example_config (Some LIVE) 1)
          [blank_candle 36000000] (Some example_trades)) =
     Inl (DependencyException IndexError)"
proof -
  have ne: "example_trades \<noteq> []"
    by (simp add: example_trades_def)
  have tg: "trade_groups failing_exchange (example_config (Some LIVE) 1) example_trades
      (init_dataframe_with_trades_columns [blank_candle 36000000]) =
      Inl (ResolverError ''timeframe'')"
    by code_simp
  have g: "trade_groups minute_exchange (example_config (Some LIVE) 1) example_trades
      (init_dataframe_with_trades_columns [blank_candle 36000000]) =
      Inr ([] @ example_group # [])"
    by code_simp
  have ks: "map fst ([] @ example_group # []) = [36000000]"
    by (simp add: example_group_def)
  have pg: "fst (process_group minute_exchange (example_config (Some LIVE) 1) [36000000]
      example_group (start_state [blank_candle 36000000] broken_cache)) = Some IndexError"
    by code_simp
  then have pg': "process_group minute_exchange (example_config (Some LIVE) 1)
      (map fst ([] @ example_group # [])) example_group
      (start_state [blank_candle 36000000] broken_cache) =
      (Some IndexError, snd (process_group minute_exchange (example_config (Some LIVE) 1)
         [36000000] example_group (start_state [blank_candle 36000000] broken_cache)))"
    unfolding ks by (metis prod.collapse)
  have rg: "run_groups minute_exchange (example_config (Some LIVE) 1)
      (map fst ([] @ example_group # [])) []
      (start_state [blank_candle 36000000] broken_cache) =
      (None, start_state [blank_candle 36000000] broken_cache)"
    by simp
  note th = failure_raises_dependency_exception [OF ne]
  from th [of failing_exchange "example_config (Some LIVE) 1" "[blank_candle 36000000]" "[]"] tg
  have 1: "populate_dataframe_with_trades failing_exchange [] (example_config (Some LIVE) 1)
      [blank_candle 36000000] (Some example_trades) =
      (Inl (DependencyException (ResolverError ''timeframe'')),
       (start_state [blank_candle 36000000] [])
         \<lparr>logged := [Exception_logged (ResolverError ''timeframe'')]\<rparr>)"
    by blast
  from th [of minute_exchange "example_config (Some LIVE) 1" "[blank_candle 36000000]"
      broken_cache] g rg pg'
  have 2: "fst (populate_dataframe_with_trades minute_exchange broken_cache
      (example_config (Some LIVE) 1) [blank_candle 36000000] (Some example_trades)) =
      Inl (DependencyException IndexError)"
    by (metis fst_conv)
  from ne tg 1 2 pg show ?thesis by simp
qed

section \<open>The orchestrator: rows without trades\<close>

lemma init_columns_unset:
  "added_columns_unset (init_columns r) \<and> col_date (init_columns r) = col_date r \<and>
   col_ohlcv (init_columns r) = col_ohlcv r"
  by (simp add: added_columns_unset_def init_columns_def)

lemma init_dataframe_nth:
  "i < length df \<Longrightarrow> init_dataframe_with_trades_columns df ! i = init_columns (df ! i)"
  by (simp add: init_dataframe_with_trades_columns_def)

lemma init_dataframe_length: "length (init_dataframe_with_trades_columns df) = length df"
  by (simp add: init_dataframe_with_trades_columns_def)

lemma populate_untouched_row:
  assumes "i < length df"
    and "\<forall>gs. trade_groups ex cfg ts (init_dataframe_with_trades_columns df) = Inr gs \<longrightarrow>
           col_date (df ! i) \<notin> fst ` set gs"
  shows "length (dataframe (snd (populate_dataframe_with_trades ex c cfg df (Some ts)))) =
           length df \<and>
         dataframe (snd (populate_dataframe_with_trades ex c cfg df (Some ts))) ! i =
           init_columns (df ! i)"
proof -
  let ?p = "populate_dataframe_with_trades ex c cfg df (Some ts)"
  from populate_final [of ex c cfg df "Some ts"] obtain r s where
    fin: "dataframe (snd ?p) = dataframe s"
    and alt: "(\<exists>gs. trade_groups ex cfg ts (init_dataframe_with_trades_columns df) = Inr gs \<and>
                 run_groups ex cfg (map fst gs) gs (start_state df c) = (r, s)) \<or>
              dataframe s = init_dataframe_with_trades_columns df"
    by auto
  from alt have "length (dataframe s) = length df \<and> dataframe s ! i = init_columns (df ! i)"
  proof
    assume "\<exists>gs. trade_groups ex cfg ts (init_dataframe_with_trades_columns df) = Inr gs \<and>
                 run_groups ex cfg (map fst gs) gs (start_state df c) = (r, s)"
    then obtain gs where
      tg: "trade_groups ex cfg ts (init_dataframe_with_trades_columns df) = Inr gs"
      and rg: "run_groups ex cfg (map fst gs) gs (start_state df c) = (r, s)"
      by blast
    from assms(2) tg have "col_date (df ! i) \<notin> fst ` set gs" by blast
    then have d: "col_date (dataframe (start_state df c) ! i) \<notin> fst ` set gs"
      using assms(1) by (simp add: init_dataframe_nth init_columns_unset)
    have i: "i < length (dataframe (start_state df c))"
      using assms(1) by (simp add: init_dataframe_length)
    from run_groups_frame [OF rg] i d
    have "length (dataframe s) = length (dataframe (start_state df c)) \<and>
          dataframe s ! i = dataframe (start_state df c) ! i"
      by blast
    then show ?thesis
      using assms(1) by (simp add: init_dataframe_nth init_dataframe_length)
  next
    assume "dataframe s = init_dataframe_with_trades_columns df"
    then show ?thesis
      using assms(1) by (simp add: init_dataframe_nth init_dataframe_length)
  qed
  then show ?thesis by (simp add: fin)
qed

text \<open>
  C7. With an empty or absent trade table the call returns the interval table with
  every added column unset on every row (the other columns as they were) and the cache
  as passed in. With trades, every row whose date is the key of no trade group keeps
  all its added fields unset (\<open>None\<close>, which is not a number).
\<close>

theorem no_trades_leaves_columns_unset:
  "(trades = None \<or> trades = Some [] \<longrightarrow>
      populate_dataframe_with_trades ex c cfg df trades =
        (Inr (init_dataframe_with_trades_columns df, c), start_state df c)) \<and>
   length (init_dataframe_with_trades_columns df) = length df \<and>
   (\<forall>i<length df.
      added_columns_unset (init_dataframe_with_trades_columns df ! i) \<and>
      col_date (init_dataframe_with_trades_columns df ! i) = col_date (df ! i) \<and>
      col_ohlcv (init_dataframe_with_trades_columns df ! i) = col_ohlcv (df ! i)) \<and>
   (i < length df \<and>
    (\<forall>gs. trade_groups ex cfg ts (init_dataframe_with_trades_columns df) = Inr gs \<longrightarrow>
           col_date (df ! i) \<notin> fst ` set gs) \<longrightarrow>
      length (dataframe (snd (populate_dataframe_with_trades ex c cfg df (Some ts)))) =
        length df \<and>
      dataframe (snd (populate_dataframe_with_trades ex c cfg df (Some ts))) ! i =
        init_columns (df ! i) \<and>
      added_columns_unset
        (dataframe (snd (populate_dataframe_with_trades ex c cfg df (Some ts))) ! i)) \<and>
   (\<forall>res. fst (populate_dataframe_with_trades ex c cfg df (Some ts)) = Inr res \<longrightarrow>
      fst res = dataframe (snd (populate_dataframe_with_trades ex c cfg df (Some ts))))"
proof (intro conjI impI allI)
  assume "trades = None \<or> trades = Some []"
  then show "populate_dataframe_with_trades ex c cfg df trades =
        (Inr (init_dataframe_with_trades_columns df, c), start_state df c)"
    by (auto simp: populate_dataframe_with_trades_def Let_def)
next
  show "length (init_dataframe_with_trades_columns df) = length df"
    by (rule init_dataframe_length)
next
  fix j assume "j < length df"
  then show "added_columns_unset (init_dataframe_with_trades_columns df ! j)"
    "col_date (init_dataframe_with_trades_columns df ! j) = col_date (df ! j)"
    "col_ohlcv (init_dataframe_with_trades_columns df ! j) = col_ohlcv (df ! j)"
    by (simp_all add: init_dataframe_nth init_columns_unset)
next
  assume a: "i < length df \<and>
    (\<forall>gs. trade_groups ex cfg ts (init_dataframe_with_trades_columns df) = Inr gs \<longrightarrow>
           col_date (df ! i) \<notin> fst ` set gs)"
  then have i: "i < length df"
    and g: "\<forall>gs. trade_groups ex cfg ts (init_dataframe_with_trades_columns df) = Inr gs \<longrightarrow>
           col_date (df ! i) \<notin> fst ` set gs"
    by blast+
  note u = populate_untouched_row [OF i g, of c]
  from u show "length (dataframe (snd (populate_dataframe_with_trades ex c cfg df (Some ts)))) =
        length df"
    by blast
  from u show "dataframe (snd (populate_dataframe_with_trades ex c cfg df (Some ts))) ! i =
        init_columns (df ! i)"
    by blast
  from u show "added_columns_unset
        (dataframe (snd (populate_dataframe_with_trades ex c cfg df (Some ts))) ! i)"
    by (simp add: init_columns_unset)
next
  fix res
  assume a: "fst (populate_dataframe_with_trades ex c cfg df (Some ts)) = Inr res"
  show "fst res = dataframe (snd (populate_dataframe_with_trades ex c cfg df (Some ts)))"
  proof (cases "ts = []")
    case True
    then show ?thesis using a by (auto simp: populate_dataframe_with_trades_def Let_def)
  next
    case False
    obtain r s where tb: "try_block ex cfg ts (start_state df c) = (r, s)"
      by (cases "try_block ex cfg ts (start_state df c)")
    with a False show ?thesis
      by (cases r) (auto simp: populate_dataframe_with_trades_def Let_def)
  qed
qed

theorem no_trades_leaves_columns_unset_witness:
  "populate_dataframe_with_trades minute_exchange old_cache (example_config (Some LIVE) 1)
       three_candles (Some []) =
     (Inr (init_dataframe_with_trades_columns three_candles, old_cache),
      start_state three_candles old_cache) \<and>
   init_dataframe_with_trades_columns three_candles = three_candles \<and>
   0 < length three_candles \<and>
   trade_groups minute_exchange (example_config (Some LIVE) 1) example_trades
       (init_dataframe_with_trades_columns three_candles) = Inr [example_group] \<and>
   dataframe (snd (populate_dataframe_with_trades minute_exchange old_cache
       (example_config (Some LIVE) 1) three_candles (Some example_trades))) ! 0 =
     blank_candle 35940000 \<and>
   added_columns_unset (dataframe (snd (populate_dataframe_with_trades minute_exchange old_cache
       (example_config (Some LIVE) 1) three_candles (Some example_trades))) ! 0) \<and>
   col_bid (dataframe (snd (populate_dataframe_with_trades minute_exchange old_cache
       (example_config (Some LIVE) 1) three_candles (Some example_trades))) ! 1) = Some 1"
proof -
  have i: "0 < length three_candles"
    by (simp add: three_candles_def)
  have d: "init_dataframe_with_trades_columns three_candles = three_candles"
    by (simp add: three_candles_def init_dataframe_with_trades_columns_def init_columns_def
          blank_candle_def)
  have ic: "init_columns (three_candles ! 0) = blank_candle 35940000"
    by (simp add: three_candles_def init_columns_def blank_candle_def)
  have tg: "trade_groups minute_exchange (example_config (Some LIVE) 1) example_trades
      (init_dataframe_with_trades_columns three_candles) = Inr [example_group]"
    by code_simp
  have g: "\<forall>gs. trade_groups minute_exchange (example_config (Some LIVE) 1) example_trades
      (init_dataframe_with_trades_columns three_candles) = Inr gs \<longrightarrow>
      col_date (three_candles ! 0) \<notin> fst ` set gs"
    unfolding tg by (simp add: three_candles_def example_group_def blank_candle_def)
  have b: "col_bid (dataframe (snd (populate_dataframe_with_trades minute_exchange old_cache
       (example_config (Some LIVE) 1) three_candles (Some example_trades))) ! 1) = Some 1"
    by code_simp
  note th = no_trades_leaves_columns_unset [of "Some []" minute_exchange old_cache
      "example_config (Some LIVE) 1" three_candles 0 example_trades]
  from th have 1: "populate_dataframe_with_trades minute_exchange old_cache
      (example_config (Some LIVE) 1) three_candles (Some []) =
     (Inr (init_dataframe_with_trades_columns three_candles, old_cache),
      start_state three_candles old_cache)"
    by blast
  from th i g have 2: "dataframe (snd (populate_dataframe_with_trades minute_exchange old_cache
       (example_config (Some LIVE) 1) three_candles (Some example_trades))) ! 0 =
     init_columns (three_candles ! 0)"
    and 3: "added_columns_unset (dataframe (snd (populate_dataframe_with_trades minute_exchange
       old_cache (example_config (Some LIVE) 1) three_candles (Some example_trades))) ! 0)"
    by blast+
  from 1 d i tg 2 3 b show ?thesis
    unfolding ic by blast
qed

end
